theory Spec2Isabelle
  imports Main "HOL-Library.Sublist"
begin

section \<open>Python strings\<close>

text \<open>
  A Python \<open>str\<close> is modelled as a \<open>string\<close>, one \<open>char\<close> per code point, so the model
  covers the code points below 256. \<open>isspace\<close> lists the code points below 256 for which
  Python's \<open>str.isspace\<close> holds; these are what \<open>str.strip()\<close> removes.
\<close>

definition isspace :: "char \<Rightarrow> bool" where
  "isspace c = (c \<in> set [CHR 0x09, CHR 0x0A, CHR 0x0B, CHR 0x0C, CHR 0x0D,
                           CHR 0x1C, CHR 0x1D, CHR 0x1E, CHR 0x1F, CHR 0x20,
                           CHR 0x85, CHR 0xA0])"

definition strip :: "string \<Rightarrow> string" where
  "strip s = rev (dropWhile isspace (rev (dropWhile isspace s)))"

text \<open>\<open>contains s sub\<close> is Python's \<open>sub in s\<close>.\<close>

fun contains :: "string \<Rightarrow> string \<Rightarrow> bool" where
  "contains [] sub = (sub = [])"
| "contains (c # cs) sub = (prefix sub (c # cs) \<or> contains cs sub)"

text \<open>
  \<open>find_at sub s i\<close> scans \<open>s\<close>, whose first character has index \<open>i\<close> in the whole string,
  for the lowest index at which \<open>sub\<close> starts; \<open>-1\<close> when there is none.
\<close>

fun find_at :: "string \<Rightarrow> string \<Rightarrow> nat \<Rightarrow> int" where
  "find_at sub [] i = (if sub = [] then int i else -1)"
| "find_at sub (c # cs) i = (if prefix sub (c # cs) then int i else find_at sub cs (Suc i))"

text \<open>\<open>str_find s sub start\<close> is \<open>s.find(sub, start)\<close>; a negative \<open>start\<close> counts from the end.\<close>

definition str_find :: "string \<Rightarrow> string \<Rightarrow> int \<Rightarrow> int" where
  "str_find s sub start =
     (let n = int (length s);
          b = (if start < 0 then max 0 (start + n) else start)
      in if n < b then -1 else find_at sub (drop (nat b) s) (nat b))"

text \<open>\<open>slice_to s e\<close> is \<open>s[:e]\<close> and \<open>slice_from s b\<close> is \<open>s[b:]\<close>.\<close>

definition slice_to :: "string \<Rightarrow> int \<Rightarrow> string" where
  "slice_to s e = (if e < 0 then take (length s - nat (- e)) s else take (nat e) s)"

definition slice_from :: "string \<Rightarrow> int \<Rightarrow> string" where
  "slice_from s b = (if b < 0 then drop (length s - nat (- b)) s else drop (nat b) s)"

text \<open>\<open>str_split1 s sep\<close> is \<open>s.split(sep, 1)\<close>: one element when \<open>sep\<close> does not occur,
  otherwise the text before and the text after its first occurrence.\<close>

definition str_split1 :: "string \<Rightarrow> string \<Rightarrow> string list" where
  "str_split1 s sep =
     (let i = str_find s sep 0
      in if i = -1 then [s] else [slice_to s i, slice_from s (i + int (length sep))])"

text \<open>\<open>str_split s d\<close> is \<open>s.split(d)\<close> for a one-character delimiter.\<close>

fun str_split :: "string \<Rightarrow> char \<Rightarrow> string list" where
  "str_split [] d = [[]]"
| "str_split (c # cs) d =
     (if c = d then [] # str_split cs d
      else (case str_split cs d of p # ps \<Rightarrow> (c # p) # ps | [] \<Rightarrow> [[c]]))"

section \<open>Insertion-ordered dictionaries\<close>

text \<open>
  A Python \<open>dict\<close> keeps its keys in insertion order, and the column order of the table
  depends on it, so a dictionary is an association list. \<open>setitem d k v\<close> is \<open>d[k] = v\<close>:
  an existing key keeps its position, a new key goes to the end. \<open>map_of d k\<close> reads \<open>d[k]\<close>.
\<close>

fun setitem :: "('k \<times> 'v) list \<Rightarrow> 'k \<Rightarrow> 'v \<Rightarrow> ('k \<times> 'v) list" where
  "setitem [] k v = [(k, v)]"
| "setitem ((k', v') # d) k v = (if k' = k then (k, v) # d else (k', v') # setitem d k v)"

section \<open>The decoder\<close>

datatype error = ValueError

text \<open>The values a decoded record holds: a string, a list of strings, or the (empty)
  dictionary stored under \<open>Unknown Tags\<close>.\<close>

datatype cell = Str string | Lst "string list" | Dct "(string \<times> string) list"

type_synonym message = "(string \<times> cell) list"

definition columns_mapping :: "(string \<times> string) list" where
  "columns_mapping =
    [(''TID'', ''TID''),
     (''Order Type'', ''Order Type''),
     (''8'', ''8 BeginString''),
     (''9'', ''9 BodyLength''),
     (''35'', ''35 MsgType''),
     (''34'', ''34 MsgSeqNum''),
     (''49'', ''49 SenderCompID''),
     (''56'', ''56 TargetCompID''),
     (''57'', ''57 TargetSubID''),
     (''52'', ''52 SendingTime''),
     (''11'', ''11 ClOrdID''),
     (''17'', ''17 ExecID''),
     (''37'', ''37 OrderID''),
     (''198'', ''198 SecondaryOrderId''),
     (''150'', ''150 ExecType''),
     (''453'', ''453 NoPartyIDs''),
     (''448'', ''448 PartyID''),
     (''447'', ''447 PartyIDSource''),
     (''452'', ''452 PartyRole''),
     (''55'', ''55 Symbol''),
     (''48'', ''48 SecurityID''),
     (''22'', ''22 SecurityIDSource''),
     (''762'', ''762 SecuritySubType''),
     (''1'', ''1 Account''),
     (''14'', ''14 CumQty''),
     (''31'', ''31 LastPx''),
     (''32'', ''32 LastQty''),
     (''38'', ''38 OrderQty''),
     (''110'', ''110 MinQty''),
     (''39'', ''39 OrdStatus''),
     (''40'', ''40 OrdType''),
     (''44'', ''44 Price''),
     (''847'', ''847 TargetStrategy''),
     (''54'', ''54 Side''),
     (''59'', ''59 TimeInForce''),
     (''60'', ''60 TransactTime''),
     (''75'', ''75 TradeDate''),
     (''64'', ''64 SettlDate''),
     (''151'', ''151 LeavesQty''),
     (''880'', ''880 TrdMatchID''),
     (''1891'', ''1891 TrdMatchSubID''),
     (''1057'', ''1057 AggressorIndicator''),
     (''381'', ''381 GrossTradeAmt''),
     (''797'', ''797 CopyMsgIndicator''),
     (''10'', ''10 CheckSum'')]"

text \<open>
  \<open>extract_preamble_details\<close>: unpacking \<open>line.split(']: ', 1)\<close> into two names raises
  \<open>ValueError\<close> unless the split has two elements.
\<close>

definition extract_preamble_details :: "string \<Rightarrow> error + (string \<times> string)" where
  "extract_preamble_details line =
     (case str_split1 line '']: '' of
        [preamble, _] \<Rightarrow>
          (let tid_marker = str_find preamble ''(TID='' 0;
               tid = (if tid_marker \<noteq> -1
                      then (let tid_end = str_find preamble '')'' tid_marker + 1
                            in strip (slice_to preamble tid_end))
                      else ''Unknown TID'');
               order_type_marker = str_find preamble ''| '' 0;
               order_type = (if order_type_marker \<noteq> -1
                             then strip (slice_from preamble (order_type_marker + 2))
                             else ''Unknown Order Type'')
           in Inr (tid, order_type))
      | _ \<Rightarrow> Inl ValueError)"

text \<open>The state of the loop over the body's parts: the record under construction and the
  three containers for the repeated tags.\<close>

record parse_state =
  data :: message
  partyIDs :: "string list"
  partyIDSources :: "string list"
  partyRoles :: "string list"

text \<open>The loop of \<open>parse_message\<close>. \<open>store_field\<close> is what one iteration does with the
  \<open>key\<close> and \<open>value\<close> of a part; \<open>parse_part\<close> is the whole iteration: a part without \<open>=\<close>
  is skipped, and the others are split at their first \<open>=\<close>.\<close>

definition store_field :: "string \<Rightarrow> string \<Rightarrow> parse_state \<Rightarrow> parse_state" where
  "store_field key value st =
     (case map_of columns_mapping key of
        Some name \<Rightarrow>
          (if key \<in> set [''448'', ''447'', ''452'']
           then (if key = ''448'' then st\<lparr>partyIDs := partyIDs st @ [value]\<rparr>
                 else if key = ''447'' then st\<lparr>partyIDSources := partyIDSources st @ [value]\<rparr>
                 else if key = ''452'' then st\<lparr>partyRoles := partyRoles st @ [value]\<rparr>
                 else st)
           else st\<lparr>data := setitem (data st) name (Str value)\<rparr>)
      | None \<Rightarrow> st\<lparr>data := setitem (data st) (''Unknown Tag '' @ key) (Str value)\<rparr>)"

definition parse_part :: "string \<Rightarrow> parse_state \<Rightarrow> error + parse_state" where
  "parse_part part st =
     (if \<not> contains part ''='' then Inr st
      else (case str_split1 part ''='' of
              [key, value] \<Rightarrow> Inr (store_field key value st)
            | _ \<Rightarrow> Inl ValueError))"

fun parse_parts :: "string list \<Rightarrow> parse_state \<Rightarrow> error + parse_state" where
  "parse_parts [] st = Inr st"
| "parse_parts (part # rest) st =
     (case parse_part part st of Inl e \<Rightarrow> Inl e | Inr st' \<Rightarrow> parse_parts rest st')"

definition parse_message :: "string \<Rightarrow> error + message" where
  "parse_message line =
     (case extract_preamble_details line of
        Inl e \<Rightarrow> Inl e
      | Inr (tid, order_type) \<Rightarrow>
          (case str_split1 line '']: '' of
             [_, message_str] \<Rightarrow>
               (case parse_parts (str_split message_str CHR ''|'')
                       \<lparr>data = setitem (setitem [(''Unknown Tags'', Dct [])] ''TID'' (Str tid))
                                 ''Order Type'' (Str order_type),
                        partyIDs = [], partyIDSources = [], partyRoles = []\<rparr> of
                  Inl e \<Rightarrow> Inl e
                | Inr st \<Rightarrow>
                    Inr (if partyIDs st \<noteq> []
                         then setitem (setitem (setitem (data st)
                                ''448 PartyID'' (Lst (partyIDs st)))
                                ''447 PartyIDSource'' (Lst (partyIDSources st)))
                                ''452 PartyRole'' (Lst (partyRoles st))
                         else data st))
           | _ \<Rightarrow> Inl ValueError))"

text \<open>
  \<open>process_file\<close>, given the lines of the file: the list comprehension decodes every line
  that is not blank, in order, and an exception raised for one line leaves the comprehension.
\<close>

fun process_file :: "string list \<Rightarrow> error + message list" where
  "process_file [] = Inr []"
| "process_file (line # rest) =
     (if strip line \<noteq> []
      then (case parse_message line of
              Inl e \<Rightarrow> Inl e
            | Inr m \<Rightarrow> (case process_file rest of Inl e \<Rightarrow> Inl e | Inr ms \<Rightarrow> Inr (m # ms)))
      else process_file rest)"

section \<open>The table\<close>

text \<open>
  \<open>pd.DataFrame(messages)\<close> on a list of dictionaries has one column per key, in the order
  in which the keys are first met going through the records; \<open>ins\<close> is one step of that
  scan. A cell is the record's value under the column's key, or missing.
\<close>

definition ins :: "'a \<Rightarrow> 'a list \<Rightarrow> 'a list" where
  "ins x seen = (if x \<in> set seen then seen else seen @ [x])"

definition first_seen :: "'a list \<Rightarrow> 'a list" where
  "first_seen xs = fold ins xs []"

definition DataFrame_columns :: "message list \<Rightarrow> string list" where
  "DataFrame_columns messages = first_seen (concat (map (map fst) messages))"

definition ordered_columns :: "string list" where
  "ordered_columns =
     [''TID'', ''Order Type''] @
     map (\<lambda>tag. the (map_of columns_mapping tag))
       (filter (\<lambda>tag. tag \<notin> set [''TID'', ''Order Type'']) (map fst columns_mapping))"

definition extra_columns :: "message list \<Rightarrow> string list" where
  "extra_columns messages =
     filter (\<lambda>col. col \<notin> set ordered_columns) (DataFrame_columns messages)"

definition final_columns_order :: "message list \<Rightarrow> string list" where
  "final_columns_order messages = ordered_columns @ extra_columns messages"

text \<open>The reindexed frame that \<open>save_to_excel\<close> writes: its header and, for every record,
  one cell per column of the header.\<close>

definition save_to_excel :: "message list \<Rightarrow> string list \<times> cell option list list" where
  "save_to_excel messages =
     (final_columns_order messages,
      map (\<lambda>m. map (map_of m) (final_columns_order messages)) messages)"

section \<open>Notions used to state the properties\<close>

text \<open>
  The \<open>(tag code, value)\<close> pairs of a message body, in the order in which they occur: the
  parts between \<open>|\<close> that contain \<open>=\<close>, each split at its first \<open>=\<close>.
\<close>

definition part_fields :: "string list \<Rightarrow> (string \<times> string) list" where
  "part_fields parts =
     concat (map (\<lambda>part. if contains part ''=''
                           then (case str_split1 part ''='' of
                                   [key, value] \<Rightarrow> [(key, value)] | _ \<Rightarrow> [])
                           else []) parts)"

definition fields :: "string \<Rightarrow> (string \<times> string) list" where
  "fields body = part_fields (str_split body CHR ''|'')"

text \<open>The values that a body gives to one tag code, in the order in which they occur.\<close>

definition occurrences :: "string \<Rightarrow> string \<Rightarrow> string list" where
  "occurrences tag body = map snd (filter (\<lambda>(key, value). key = tag) (fields body))"

text \<open>The tag codes of a body that the schema does not know, in the order in which they occur.\<close>

definition unknown_codes :: "string \<Rightarrow> string list" where
  "unknown_codes body = filter (\<lambda>key. map_of columns_mapping key = None) (map fst (fields body))"

text \<open>The message body of a line: the text after the first \<open>]: \<close>.\<close>

definition message_body :: "string \<Rightarrow> string" where
  "message_body line = (case str_split1 line '']: '' of [_, message_str] \<Rightarrow> message_str | _ \<Rightarrow> [])"

text \<open>The key of the record under which the loop stores the value of a field with tag code
  \<open>key\<close>; none for the three repeated tags, whose values go to the containers.\<close>

definition column_of :: "string \<Rightarrow> string option" where
  "column_of key =
     (case map_of columns_mapping key of
        Some name \<Rightarrow> if key \<in> set [''448'', ''447'', ''452''] then None else Some name
      | None \<Rightarrow> Some (''Unknown Tag '' @ key))"

text \<open>The key, and column, that the loop gives to a tag code the schema does not know.\<close>

definition unknown_column :: "string \<Rightarrow> string" where
  "unknown_column code = ''Unknown Tag '' @ code"

section \<open>Facts about the string operations\<close>

text \<open>\<open>contains\<close> is the substring relation, and \<open>str_find\<close> returns the first occurrence:
  when \<open>sub\<close> does not occur in \<open>pre\<close> and cannot overlap itself (its first character does not
  occur again in it), the first occurrence in \<open>pre @ sub @ post\<close> is the one after \<open>pre\<close>.\<close>

lemma contains_length: "contains s sub \<Longrightarrow> length sub \<le> length s"
  by (induction s) (auto dest: prefix_length_le)

lemma contains_iff: "contains s sub \<longleftrightarrow> (\<exists>pre post. s = pre @ sub @ post)"
proof (induction s)
  case Nil
  then show ?case by auto
next
  case (Cons c cs)
  show ?case
  proof
    assume "contains (c # cs) sub"
    then consider "prefix sub (c # cs)" | "contains cs sub" by auto
    then show "\<exists>pre post. c # cs = pre @ sub @ post"
    proof cases
      case 1
      then obtain post where "c # cs = sub @ post" by (auto simp: prefix_def)
      then have "c # cs = [] @ sub @ post" by simp
      then show ?thesis by blast
    next
      case 2
      then obtain pre post where "cs = pre @ sub @ post" using Cons.IH by blast
      then have "c # cs = (c # pre) @ sub @ post" by simp
      then show ?thesis by blast
    qed
  next
    assume "\<exists>pre post. c # cs = pre @ sub @ post"
    then obtain pre post where eq: "c # cs = pre @ sub @ post" by blast
    show "contains (c # cs) sub"
    proof (cases pre)
      case Nil
      then have "prefix sub (c # cs)" using eq by (simp add: prefix_def)
      then show ?thesis by simp
    next
      case (Cons p ps)
      then have "cs = ps @ sub @ post" using eq by simp
      then have "contains cs sub" using Cons.IH by blast
      then show ?thesis by simp
    qed
  qed
qed

lemma contains_char: "contains s [c] \<longleftrightarrow> c \<in> set s"
  by (induction s) auto

lemma find_at_absent: "\<not> contains s sub \<Longrightarrow> find_at sub s i = -1"
  by (induction s arbitrary: i) auto

lemma find_at_present: "contains s sub \<Longrightarrow> int i \<le> find_at sub s i"
proof (induction s arbitrary: i)
  case Nil
  then show ?case by simp
next
  case (Cons c cs)
  show ?case
  proof (cases "prefix sub (c # cs)")
    case True
    then show ?thesis by simp
  next
    case False
    then have "contains cs sub" using Cons.prems by simp
    then have "int (Suc i) \<le> find_at sub cs (Suc i)" by (rule Cons.IH)
    then show ?thesis using False by simp
  qed
qed

lemma find_at_first:
  "\<not> contains (pre @ butlast sub) sub \<Longrightarrow>
   find_at sub (pre @ sub @ post) i = int (i + length pre)"
proof (induction pre arbitrary: i)
  case Nil
  then have "sub \<noteq> []" by (cases sub) auto
  then obtain c cs where "sub @ post = c # cs" by (cases sub) auto
  moreover have "prefix sub (sub @ post)" by simp
  ultimately show ?case by simp
next
  case (Cons p ps)
  have ne: "sub \<noteq> []" using Cons.prems by (cases sub) auto
  have np: "\<not> prefix sub (p # ps @ butlast sub)" and nc: "\<not> contains (ps @ butlast sub) sub"
    using Cons.prems by auto
  have "\<not> prefix sub (p # ps @ sub @ post)"
  proof
    assume "prefix sub (p # ps @ sub @ post)"
    moreover obtain b l where bl: "sub = b @ [l]"
      using ne by (cases sub rule: rev_cases) auto
    ultimately have "prefix sub ((p # ps @ butlast sub) @ (last sub # post))"
      by simp
    then have "prefix sub (p # ps @ butlast sub) \<or>
               (\<exists>us. sub = (p # ps @ butlast sub) @ us \<and> prefix us (last sub # post))"
      by (simp only: prefix_append)
    then show False
    proof
      assume "prefix sub (p # ps @ butlast sub)"
      then show False using np by simp
    next
      assume "\<exists>us. sub = (p # ps @ butlast sub) @ us \<and> prefix us (last sub # post)"
      then obtain us where us: "sub = (p # ps @ butlast sub) @ us" by blast
      then have "length sub = Suc (length ps) + (length sub - 1) + length us"
        by (metis length_append length_butlast length_Cons append_Cons)
      then have "us = []" using ne by (cases sub) auto
      then have "prefix sub (p # ps @ butlast sub)" using us by (metis append_Nil2 prefix_order.order_refl)
      then show False using np by simp
    qed
  qed
  then show ?case using Cons.IH [OF nc, of "Suc i"] by simp
qed

lemma butlast_free:
  assumes "hd sub \<notin> set (tl sub)" "\<not> contains pre sub"
  shows "\<not> contains (pre @ butlast sub) sub"
  using assms(2)
proof (induction pre)
  case Nil
  show ?case
  proof
    assume "contains ([] @ butlast sub) sub"
    then have le: "length sub \<le> length (butlast sub)" using contains_length by fastforce
    have "sub = []"
    proof (rule ccontr)
      assume "sub \<noteq> []"
      then have "0 < length sub" by simp
      then have "length (butlast sub) < length sub" by (simp only: length_butlast)
      then show False using le by arith
    qed
    then show False using Nil by simp
  qed
next
  case (Cons p ps)
  then have np: "\<not> prefix sub (p # ps)" and nc: "\<not> contains ps sub" by auto
  have "\<not> prefix sub (p # ps @ butlast sub)"
  proof
    assume "prefix sub (p # ps @ butlast sub)"
    then have "prefix sub ((p # ps) @ butlast sub)" by simp
    then have "\<exists>us. sub = (p # ps) @ us \<and> prefix us (butlast sub)"
      using np by (simp only: prefix_append) blast
    then obtain us where sub: "sub = (p # ps) @ us" and pre: "prefix us (butlast sub)" by blast
    have "us \<noteq> []" using sub np by auto
    then obtain u us' where us: "us = u # us'" by (cases us) auto
    have "butlast sub = p # butlast (ps @ us)" using sub us by simp
    then have "u = p" using pre us by simp
    then have "p \<in> set (ps @ us)" using us by simp
    then show False using assms(1) sub by simp
  qed
  then show ?case using Cons.IH [OF nc] by simp
qed

lemma str_split1_absent: "\<not> contains s sep \<Longrightarrow> str_split1 s sep = [s]"
  by (simp add: str_split1_def str_find_def find_at_absent)

lemma str_split1_present: "contains s sep \<Longrightarrow> \<exists>a b. str_split1 s sep = [a, b]"
  using find_at_present [of s sep 0] by (simp add: str_split1_def str_find_def Let_def)

lemma str_find_first:
  "hd sub \<notin> set (tl sub) \<Longrightarrow> \<not> contains pre sub \<Longrightarrow>
   str_find (pre @ sub @ post) sub 0 = int (length pre)"
  using find_at_first [OF butlast_free, of sub pre post 0] by (simp add: str_find_def)

lemma str_split1_first:
  "hd sep \<notin> set (tl sep) \<Longrightarrow> \<not> contains pre sep \<Longrightarrow>
   str_split1 (pre @ sep @ post) sep = [pre, post]"
  by (simp add: str_split1_def str_find_first slice_to_def slice_from_def)

lemma first_occurrence_decomp:
  "sub \<noteq> [] \<Longrightarrow> contains s sub \<Longrightarrow> \<exists>pre post. s = pre @ sub @ post \<and> \<not> contains pre sub"
proof (induction s)
  case Nil
  then show ?case by simp
next
  case (Cons c cs)
  show ?case
  proof (cases "prefix sub (c # cs)")
    case True
    then obtain post where "c # cs = [] @ sub @ post" by (auto simp: prefix_def)
    moreover have "\<not> contains [] sub" using Cons.prems(1) by simp
    ultimately show ?thesis by blast
  next
    case False
    then have "contains cs sub" using Cons.prems(2) by simp
    then obtain pre post where cs: "cs = pre @ sub @ post" and nc: "\<not> contains pre sub"
      using Cons.IH [OF Cons.prems(1)] by blast
    have "\<not> prefix sub (c # pre)"
    proof
      assume "prefix sub (c # pre)"
      then have "prefix sub ((c # pre) @ sub @ post)" by (rule prefix_prefix)
      then show False using False cs by simp
    qed
    then have "\<not> contains (c # pre) sub" using nc by simp
    moreover have "c # cs = (c # pre) @ sub @ post" using cs by simp
    ultimately show ?thesis by blast
  qed
qed

lemma str_find_absent: "\<not> contains s sub \<Longrightarrow> str_find s sub 0 = -1"
  by (simp add: str_find_def find_at_absent)

lemma str_find_present: "contains s sub \<Longrightarrow> 0 \<le> str_find s sub 0"
  using find_at_present [of s sub 0] by (simp add: str_find_def)

lemma str_find_from: "str_find (a @ s) sub (int (length a)) = find_at sub s (length a)"
  by (simp add: str_find_def)

section \<open>Extraction from the preamble\<close>

lemma split_line:
  "\<not> contains pre '']: '' \<Longrightarrow> str_split1 (pre @ '']: '' @ body) '']: '' = [pre, body]"
  by (rule str_split1_first) simp_all

lemma extract_on_preamble:
  assumes "\<not> contains pre '']: ''"
  shows "extract_preamble_details (pre @ '']: '' @ body) =
     (let tid_marker = str_find pre ''(TID='' 0;
          tid = (if tid_marker \<noteq> -1
                 then (let tid_end = str_find pre '')'' tid_marker + 1
                       in strip (slice_to pre tid_end))
                 else ''Unknown TID'');
          order_type_marker = str_find pre ''| '' 0;
          order_type = (if order_type_marker \<noteq> -1
                        then strip (slice_from pre (order_type_marker + 2))
                        else ''Unknown Order Type'')
      in Inr (tid, order_type))"
  unfolding extract_preamble_details_def split_line [OF assms] by simp

lemma tid_marker_first:
  "\<not> contains a ''(TID='' \<Longrightarrow> str_find (a @ ''(TID='' @ rest) ''(TID='' 0 = int (length a)"
  by (rule str_find_first) simp_all

lemma tid_end_found:
  assumes "CHR '')'' \<notin> set b"
  shows "str_find (a @ ''(TID='' @ b @ '')'' @ c) '')'' (int (length a)) = int (length a + 5 + length b)"
proof -
  have "\<not> contains ((''(TID='' @ b) @ butlast '')'') '')''"
    using assms by (simp add: contains_char)
  then have "find_at '')'' ((''(TID='' @ b) @ '')'' @ c) (length a) = int (length a + length (''(TID='' @ b))"
    by (rule find_at_first)
  then show ?thesis
    using str_find_from [of a "''(TID='' @ b @ '')'' @ c" "'')''"] by simp
qed

lemma tid_end_missing:
  assumes "CHR '')'' \<notin> set rest"
  shows "str_find (a @ ''(TID='' @ rest) '')'' (int (length a)) = -1"
proof -
  have "\<not> contains (''(TID='' @ rest) '')''" using assms by (simp add: contains_char)
  then have "find_at '')'' (''(TID='' @ rest) (length a) = -1" by (rule find_at_absent)
  then show ?thesis using str_find_from [of a "''(TID='' @ rest" "'')''"] by simp
qed

lemma order_type_marker_first:
  "\<not> contains a ''| '' \<Longrightarrow> str_find (a @ ''| '' @ b) ''| '' 0 = int (length a)"
  by (rule str_find_first) simp_all

lemma extract_tid_found:
  assumes "\<not> contains pre '']: ''" "pre = a @ ''(TID='' @ b @ '')'' @ c"
    "\<not> contains a ''(TID=''" "CHR '')'' \<notin> set b"
  shows "\<exists>order_type. extract_preamble_details (pre @ '']: '' @ body) =
           Inr (strip (a @ ''(TID='' @ b @ '')''), order_type)"
proof -
  have m: "str_find pre ''(TID='' 0 = int (length a)"
    using assms(2,3) tid_marker_first by simp
  have e: "str_find pre '')'' (int (length a)) = int (length a + 5 + length b)"
    using assms(2,4) tid_end_found by simp
  define x where "x = a @ ''(TID='' @ b @ '')''"
  have "int (length a + 5 + length b) + 1 = int (length x)" and "pre = x @ c"
    using assms(2) by (simp_all add: x_def)
  then have "slice_to pre (int (length a + 5 + length b) + 1) = x"
    by (simp add: slice_to_def)
  then have "slice_to pre (int (length a + 5 + length b) + 1) = a @ ''(TID='' @ b @ '')''"
    by (simp only: x_def)
  then show ?thesis
    unfolding extract_on_preamble [OF assms(1)] by (simp add: m e Let_def)
qed

lemma extract_tid_unclosed:
  assumes "\<not> contains pre '']: ''" "pre = a @ ''(TID='' @ rest"
    "\<not> contains a ''(TID=''" "CHR '')'' \<notin> set rest"
  shows "\<exists>order_type. extract_preamble_details (pre @ '']: '' @ body) = Inr ('''', order_type)"
proof -
  have m: "str_find pre ''(TID='' 0 = int (length a)"
    using assms(2,3) tid_marker_first by simp
  have e: "str_find pre '')'' (int (length a)) = -1"
    using assms(2,4) tid_end_missing by simp
  show ?thesis
    unfolding extract_on_preamble [OF assms(1)] by (simp add: m e Let_def slice_to_def strip_def)
qed

lemma extract_tid_absent:
  assumes "\<not> contains pre '']: ''" "\<not> contains pre ''(TID=''"
  shows "\<exists>order_type. extract_preamble_details (pre @ '']: '' @ body) = Inr (''Unknown TID'', order_type)"
  unfolding extract_on_preamble [OF assms(1)] using assms(2) by (simp add: str_find_absent Let_def)

lemma extract_order_type_found:
  assumes "\<not> contains pre '']: ''" "pre = a @ ''| '' @ b" "\<not> contains a ''| ''"
  shows "\<exists>tid. extract_preamble_details (pre @ '']: '' @ body) = Inr (tid, strip b)"
proof -
  have m: "str_find pre ''| '' 0 = int (length a)"
    using assms(2,3) order_type_marker_first by simp
  define x where "x = a @ ''| ''"
  have "int (length a) + 2 = int (length x)" and "pre = x @ b"
    using assms(2) by (simp_all add: x_def)
  then have "slice_from pre (int (length a) + 2) = b"
    by (simp add: slice_from_def)
  then show ?thesis
    unfolding extract_on_preamble [OF assms(1)] by (simp add: m Let_def)
qed

lemma extract_order_type_absent:
  assumes "\<not> contains pre '']: ''" "\<not> contains pre ''| ''"
  shows "\<exists>tid. extract_preamble_details (pre @ '']: '' @ body) = Inr (tid, ''Unknown Order Type'')"
  unfolding extract_on_preamble [OF assms(1)] using assms(2) by (simp add: str_find_absent Let_def)

section \<open>The loop over the parts of the body\<close>

lemma part_fields_Nil: "part_fields [] = []"
  by (simp add: part_fields_def)

lemma part_fields_Cons: "part_fields (part # parts) = part_fields [part] @ part_fields parts"
  by (simp add: part_fields_def)

lemma parse_part_fields:
  "parse_part part st = Inr (fold (\<lambda>(key, value). store_field key value) (part_fields [part]) st)"
proof (cases "contains part ''=''")
  case True
  then obtain key val where "str_split1 part ''='' = [key, val]"
    using str_split1_present by blast
  then show ?thesis using True by (simp add: parse_part_def part_fields_def)
next
  case False
  then show ?thesis by (simp add: parse_part_def part_fields_def)
qed

lemma parse_parts_fields:
  "parse_parts parts st = Inr (fold (\<lambda>(key, value). store_field key value) (part_fields parts) st)"
proof (induction parts arbitrary: st)
  case Nil
  then show ?case by (simp add: part_fields_Nil)
next
  case (Cons part parts)
  show ?case
    by (simp only: parse_parts.simps parse_part_fields sum.case Cons.IH
        part_fields_Cons [of part parts] fold_append comp_apply)
qed

lemma known_repeated:
  "map_of columns_mapping ''448'' = Some ''448 PartyID''"
  "map_of columns_mapping ''447'' = Some ''447 PartyIDSource''"
  "map_of columns_mapping ''452'' = Some ''452 PartyRole''"
  by (simp_all add: columns_mapping_def)

lemma store_field_data:
  "data (store_field key value st) =
     (case column_of key of None \<Rightarrow> data st | Some c \<Rightarrow> setitem (data st) c (Str value))"
  by (simp add: store_field_def column_of_def split: option.splits)

lemma store_field_partyIDs:
  "partyIDs (store_field key value st) = partyIDs st @ (if key = ''448'' then [value] else [])"
  by (cases "key = ''448''") (simp_all add: store_field_def known_repeated split: option.splits)

lemma store_field_partyIDSources:
  "partyIDSources (store_field key value st) =
     partyIDSources st @ (if key = ''447'' then [value] else [])"
  by (cases "key = ''447''") (simp_all add: store_field_def known_repeated split: option.splits)

lemma store_field_partyRoles:
  "partyRoles (store_field key value st) = partyRoles st @ (if key = ''452'' then [value] else [])"
  by (cases "key = ''452''") (simp_all add: store_field_def known_repeated split: option.splits)

lemma fold_store_partyIDs:
  "partyIDs (fold (\<lambda>(key, value). store_field key value) fs st) =
     partyIDs st @ map snd (filter (\<lambda>(key, value). key = ''448'') fs)"
  by (induction fs arbitrary: st) (auto simp: store_field_partyIDs)

lemma fold_store_partyIDSources:
  "partyIDSources (fold (\<lambda>(key, value). store_field key value) fs st) =
     partyIDSources st @ map snd (filter (\<lambda>(key, value). key = ''447'') fs)"
  by (induction fs arbitrary: st) (auto simp: store_field_partyIDSources)

lemma fold_store_partyRoles:
  "partyRoles (fold (\<lambda>(key, value). store_field key value) fs st) =
     partyRoles st @ map snd (filter (\<lambda>(key, value). key = ''452'') fs)"
  by (induction fs arbitrary: st) (auto simp: store_field_partyRoles)

lemma map_of_setitem: "map_of (setitem d k v) = (map_of d)(k \<mapsto> v)"
  by (induction d) auto

lemma keys_setitem: "map fst (setitem d k v) = ins k (map fst d)"
  by (induction d) (force simp: ins_def)+

lemma store_field_lookup:
  "map_of (data (store_field key value st)) c =
     (if column_of key = Some c then Some (Str value) else map_of (data st) c)"
  by (simp add: store_field_data map_of_setitem split: option.splits)

lemma fold_store_lookup:
  "\<forall>key \<in> fst ` set fs. column_of key \<noteq> Some c \<Longrightarrow>
   map_of (data (fold (\<lambda>(key, value). store_field key value) fs st)) c = map_of (data st) c"
  by (induction fs arbitrary: st) (auto simp: store_field_lookup)

lemma known_entry:
  "map_of columns_mapping key = Some name \<Longrightarrow> (key, name) \<in> set columns_mapping"
  by (rule map_of_SomeD)

lemma column_of_not_Unknown_Tags: "column_of key \<noteq> Some ''Unknown Tags''"
  by (auto simp: column_of_def columns_mapping_def split: option.splits if_splits dest!: known_entry)

lemma column_of_not_repeated:
  "column_of key \<noteq> Some ''448 PartyID''"
  "column_of key \<noteq> Some ''447 PartyIDSource''"
  "column_of key \<noteq> Some ''452 PartyRole''"
  by (auto simp: column_of_def columns_mapping_def split: option.splits if_splits dest!: known_entry)

lemma column_of_TID: "column_of key = Some ''TID'' \<longleftrightarrow> key = ''TID''"
  by (auto simp: column_of_def columns_mapping_def split: option.splits if_splits dest!: known_entry)

lemma column_of_Order_Type: "column_of key = Some ''Order Type'' \<longleftrightarrow> key = ''Order Type''"
  by (auto simp: column_of_def columns_mapping_def split: option.splits if_splits dest!: known_entry)

section \<open>Success and failure of decoding\<close>

lemma parse_message_absent:
  assumes "\<not> contains line '']: ''"
  shows "parse_message line = Inl ValueError"
  using assms by (simp add: parse_message_def extract_preamble_details_def str_split1_absent)

lemma parse_message_on_line:
  assumes "\<not> contains pre '']: ''"
    and "extract_preamble_details (pre @ '']: '' @ body) = Inr (tid, order_type)"
  shows "parse_message (pre @ '']: '' @ body) =
     Inr (let st = fold (\<lambda>(key, value). store_field key value) (fields body)
                     \<lparr>data = [(''Unknown Tags'', Dct []), (''TID'', Str tid),
                              (''Order Type'', Str order_type)],
                      partyIDs = [], partyIDSources = [], partyRoles = []\<rparr>
          in if partyIDs st \<noteq> []
             then setitem (setitem (setitem (data st)
                    ''448 PartyID'' (Lst (partyIDs st)))
                    ''447 PartyIDSource'' (Lst (partyIDSources st)))
                    ''452 PartyRole'' (Lst (partyRoles st))
             else data st)"
  unfolding parse_message_def assms(2) split_line [OF assms(1)] parse_parts_fields fields_def
  by (simp add: Let_def)

lemma extract_total:
  assumes "\<not> contains pre '']: ''"
  shows "\<exists>tid order_type. extract_preamble_details (pre @ '']: '' @ body) = Inr (tid, order_type)"
  unfolding extract_on_preamble [OF assms] by (simp add: Let_def)

lemma parse_message_present:
  assumes "contains line '']: ''"
  shows "\<exists>m. parse_message line = Inr m"
proof -
  obtain pre body where line: "line = pre @ '']: '' @ body" and pre: "\<not> contains pre '']: ''"
    using first_occurrence_decomp [OF _ assms] by auto
  obtain tid order_type where
    "extract_preamble_details (pre @ '']: '' @ body) = Inr (tid, order_type)"
    using extract_total [OF pre] by blast
  from parse_message_on_line [OF pre this] show ?thesis unfolding line by blast
qed

text \<open>
  Claim C4. Decoding a line fails, with the \<open>ValueError\<close> of the unpacking, exactly when the line
  does not contain the separator \<open>]: \<close>; every line that contains it is decoded to a record.
  No other step of \<open>parse_message\<close> can fail.
\<close>

theorem decode_fails_iff_no_separator:
  "(parse_message line = Inl ValueError \<longleftrightarrow> \<not> contains line '']: '') \<and>
   ((\<exists>m. parse_message line = Inr m) \<longleftrightarrow> contains line '']: '')"
proof (cases "contains line '']: ''")
  case True
  then obtain m where "parse_message line = Inr m" using parse_message_present by blast
  then show ?thesis using True by simp
next
  case False
  then show ?thesis by (simp add: parse_message_absent)
qed

theorem decode_fails_iff_no_separator_witness:
  "parse_message ''no separator here'' = Inl ValueError \<and>
   (\<exists>m. parse_message ''Session(TID=XYZ123) | NewOrder]: 35=D|55=AAPL'' = Inr m)"
proof -
  have "\<not> contains ''no separator here'' '']: ''" by simp
  moreover have "contains ''Session(TID=XYZ123) | NewOrder]: 35=D|55=AAPL'' '']: ''" by simp
  ultimately show ?thesis
    using decode_fails_iff_no_separator [of "''no separator here''"]
      decode_fails_iff_no_separator [of "''Session(TID=XYZ123) | NewOrder]: 35=D|55=AAPL''"]
    by blast
qed

section \<open>The pseudo-fields of the record\<close>

lemma parse_message_lookup:
  assumes "\<not> contains pre '']: ''"
    and "extract_preamble_details (pre @ '']: '' @ body) = Inr (tid, order_type)"
    and "\<forall>key \<in> fst ` set (fields body). column_of key \<noteq> Some c"
    and "c \<notin> set [''448 PartyID'', ''447 PartyIDSource'', ''452 PartyRole'']"
  shows "\<exists>m. parse_message (pre @ '']: '' @ body) = Inr m \<and>
           map_of m c = map_of [(''Unknown Tags'', Dct []), (''TID'', Str tid),
                                (''Order Type'', Str order_type)] c"
proof -
  define st where "st = fold (\<lambda>(key, value). store_field key value) (fields body)
                     \<lparr>data = [(''Unknown Tags'', Dct []), (''TID'', Str tid),
                              (''Order Type'', Str order_type)],
                      partyIDs = [], partyIDSources = [], partyRoles = []\<rparr>"
  define m where "m = (if partyIDs st \<noteq> []
             then setitem (setitem (setitem (data st)
                    ''448 PartyID'' (Lst (partyIDs st)))
                    ''447 PartyIDSource'' (Lst (partyIDSources st)))
                    ''452 PartyRole'' (Lst (partyRoles st))
             else data st)"
  have pm: "parse_message (pre @ '']: '' @ body) = Inr m"
    unfolding parse_message_on_line [OF assms(1,2)] m_def st_def by (simp only: Let_def)
  have "map_of m c = map_of (data st) c"
    using assms(4) by (simp add: m_def map_of_setitem)
  also have "\<dots> = map_of [(''Unknown Tags'', Dct []), (''TID'', Str tid),
                          (''Order Type'', Str order_type)] c"
    unfolding st_def using fold_store_lookup [OF assms(3)] by simp
  finally show ?thesis using pm by blast
qed

lemma record_TID:
  assumes "\<not> contains pre '']: ''"
    and "extract_preamble_details (pre @ '']: '' @ body) = Inr (tid, order_type)"
    and "''TID'' \<notin> fst ` set (fields body)"
  shows "\<exists>m. parse_message (pre @ '']: '' @ body) = Inr m \<and> map_of m ''TID'' = Some (Str tid)"
proof -
  have "\<forall>key \<in> fst ` set (fields body). column_of key \<noteq> Some ''TID''"
    using assms(3) by (metis column_of_TID)
  from parse_message_lookup [OF assms(1,2) this] show ?thesis by simp
qed

lemma record_Order_Type:
  assumes "\<not> contains pre '']: ''"
    and "extract_preamble_details (pre @ '']: '' @ body) = Inr (tid, order_type)"
    and "''Order Type'' \<notin> fst ` set (fields body)"
  shows "\<exists>m. parse_message (pre @ '']: '' @ body) = Inr m \<and>
           map_of m ''Order Type'' = Some (Str order_type)"
proof -
  have "\<forall>key \<in> fst ` set (fields body). column_of key \<noteq> Some ''Order Type''"
    using assms(3) by (metis column_of_Order_Type)
  from parse_message_lookup [OF assms(1,2) this] show ?thesis by simp
qed

lemma record_Unknown_Tags:
  assumes "\<not> contains pre '']: ''"
  shows "\<exists>m. parse_message (pre @ '']: '' @ body) = Inr m \<and>
           map_of m ''Unknown Tags'' = Some (Dct [])"
proof -
  obtain tid order_type where
    e: "extract_preamble_details (pre @ '']: '' @ body) = Inr (tid, order_type)"
    using extract_total [OF assms] by blast
  have "\<forall>key \<in> fst ` set (fields body). column_of key \<noteq> Some ''Unknown Tags''"
    by (simp add: column_of_not_Unknown_Tags)
  from parse_message_lookup [OF assms e this] show ?thesis by simp
qed

text \<open>
  Claim C6, as amended. Let the line be \<open>pre @ ']: ' @ body\<close> with no \<open>]: \<close> in \<open>pre\<close>, so that
  \<open>pre\<close> is the preamble. If the first \<open>(TID=\<close> of the preamble starts after \<open>a\<close> and the first
  \<open>)\<close> after it ends \<open>b\<close>, the transaction identifier that \<open>extract_preamble_details\<close> returns is
  the preamble's prefix up to and including that \<open>)\<close> with the surrounding whitespace stripped
  (not the prefix itself); if the preamble has no \<open>(TID=\<close> it is \<open>Unknown TID\<close>. This is the
  record's \<open>TID\<close> entry whenever the body has no field whose tag code is \<open>TID\<close>.
\<close>

theorem transaction_id_is_stripped_prefix:
  assumes "line = pre @ '']: '' @ body" and "\<not> contains pre '']: ''"
  shows "(pre = a @ ''(TID='' @ b @ '')'' @ c \<and> \<not> contains a ''(TID='' \<and> CHR '')'' \<notin> set b \<longrightarrow>
           (\<exists>order_type m.
              extract_preamble_details line = Inr (strip (a @ ''(TID='' @ b @ '')''), order_type) \<and>
              parse_message line = Inr m \<and>
              (''TID'' \<notin> fst ` set (fields body) \<longrightarrow>
                 map_of m ''TID'' = Some (Str (strip (a @ ''(TID='' @ b @ '')'')))))) \<and>
         (\<not> contains pre ''(TID='' \<longrightarrow>
           (\<exists>order_type m.
              extract_preamble_details line = Inr (''Unknown TID'', order_type) \<and>
              parse_message line = Inr m \<and>
              (''TID'' \<notin> fst ` set (fields body) \<longrightarrow> map_of m ''TID'' = Some (Str ''Unknown TID''))))"
proof (intro conjI impI)
  assume h: "pre = a @ ''(TID='' @ b @ '')'' @ c \<and> \<not> contains a ''(TID='' \<and> CHR '')'' \<notin> set b"
  then obtain order_type where
    e: "extract_preamble_details (pre @ '']: '' @ body) =
          Inr (strip (a @ ''(TID='' @ b @ '')''), order_type)"
    using extract_tid_found [OF assms(2), of a b c body] by blast
  obtain m where m: "parse_message (pre @ '']: '' @ body) = Inr m"
    using parse_message_on_line [OF assms(2) e] by blast
  show "\<exists>order_type m.
          extract_preamble_details line = Inr (strip (a @ ''(TID='' @ b @ '')''), order_type) \<and>
          parse_message line = Inr m \<and>
          (''TID'' \<notin> fst ` set (fields body) \<longrightarrow>
             map_of m ''TID'' = Some (Str (strip (a @ ''(TID='' @ b @ '')''))))"
    unfolding assms(1) using e m record_TID [OF assms(2) e] by auto
next
  assume h: "\<not> contains pre ''(TID=''"
  then obtain order_type where
    e: "extract_preamble_details (pre @ '']: '' @ body) = Inr (''Unknown TID'', order_type)"
    using extract_tid_absent [OF assms(2), of body] by blast
  obtain m where m: "parse_message (pre @ '']: '' @ body) = Inr m"
    using parse_message_on_line [OF assms(2) e] by blast
  show "\<exists>order_type m.
          extract_preamble_details line = Inr (''Unknown TID'', order_type) \<and>
          parse_message line = Inr m \<and>
          (''TID'' \<notin> fst ` set (fields body) \<longrightarrow> map_of m ''TID'' = Some (Str ''Unknown TID''))"
    unfolding assms(1) using e m record_TID [OF assms(2) e] by auto
qed

text \<open>The definitions that evaluate the decoder on a given line.\<close>

lemmas eval_defs = parse_message_def extract_preamble_details_def str_split1_def str_find_def
  slice_to_def slice_from_def strip_def isspace_def parse_part_def store_field_def
  columns_mapping_def Let_def fields_def part_fields_def

text \<open>
  Claim C6 as first stated fails on a preamble that starts with whitespace: for the line
  \<open>" (TID=7) | New]: 35=D"\<close> the prefix up to and including the first \<open>)\<close> is \<open>" (TID=7)"\<close>,
  and the decoded transaction identifier is \<open>"(TID=7)"\<close>.
\<close>

theorem transaction_id_is_stripped_prefix_counterexample:
  "parse_message '' (TID=7) | New]: 35=D'' =
     Inr [(''Unknown Tags'', Dct []), (''TID'', Str ''(TID=7)''), (''Order Type'', Str ''New''),
          (''35 MsgType'', Str ''D'')] \<and>
   extract_preamble_details '' (TID=7) | New]: 35=D'' = Inr (''(TID=7)'', ''New'') \<and>
   ''(TID=7)'' \<noteq> '' (TID=7)''"
  by (simp add: eval_defs)

text \<open>The amended claim C6 at two lines, one with and one without the marker.\<close>

theorem transaction_id_is_stripped_prefix_witness:
  "(\<exists>order_type m.
      extract_preamble_details ''Session(TID=XYZ123) | NewOrder]: 35=D|55=AAPL'' =
        Inr (''Session(TID=XYZ123)'', order_type) \<and>
      parse_message ''Session(TID=XYZ123) | NewOrder]: 35=D|55=AAPL'' = Inr m \<and>
      map_of m ''TID'' = Some (Str ''Session(TID=XYZ123)'')) \<and>
   (\<exists>order_type m.
      extract_preamble_details ''08:15 session | NewOrder]: 35=D|55=AAPL'' =
        Inr (''Unknown TID'', order_type) \<and>
      parse_message ''08:15 session | NewOrder]: 35=D|55=AAPL'' = Inr m \<and>
      map_of m ''TID'' = Some (Str ''Unknown TID''))"
proof -
  have f: "''TID'' \<notin> fst ` set (fields ''35=D|55=AAPL'')"
    by (simp add: eval_defs)
  have s: "strip (''Session'' @ ''(TID='' @ ''XYZ123'' @ '')'') = ''Session(TID=XYZ123)''"
    by (simp add: strip_def isspace_def)
  have 1: "''Session(TID=XYZ123) | NewOrder]: 35=D|55=AAPL'' =
             ''Session(TID=XYZ123) | NewOrder'' @ '']: '' @ ''35=D|55=AAPL''" by simp
  have 2: "\<not> contains ''Session(TID=XYZ123) | NewOrder'' '']: ''" by simp
  have 3: "''Session(TID=XYZ123) | NewOrder'' =
             ''Session'' @ ''(TID='' @ ''XYZ123'' @ '')'' @ '' | NewOrder'' \<and>
           \<not> contains ''Session'' ''(TID='' \<and> CHR '')'' \<notin> set ''XYZ123''" by simp
  have 4: "''08:15 session | NewOrder]: 35=D|55=AAPL'' =
             ''08:15 session | NewOrder'' @ '']: '' @ ''35=D|55=AAPL''" by simp
  have 5: "\<not> contains ''08:15 session | NewOrder'' '']: ''" by simp
  have 6: "\<not> contains ''08:15 session | NewOrder'' ''(TID=''" by simp
  show ?thesis
    using transaction_id_is_stripped_prefix [OF 1 2, of "''Session''" "''XYZ123''" "'' | NewOrder''"]
      transaction_id_is_stripped_prefix [OF 4 5, of "''Session''" "''XYZ123''" "'' | NewOrder''"]
      3 6 f s
    by (simp only: simp_thms) 
qed

text \<open>
  The classifier. Let the line be \<open>pre @ ']: ' @ body\<close> with no \<open>]: \<close> in \<open>pre\<close>, so that \<open>pre\<close> is the
  preamble. If the first \<open>| \<close> of the preamble starts after \<open>a\<close> and \<open>b\<close> is everything after it,
  the classifier that \<open>extract_preamble_details\<close> returns is \<open>b\<close> stripped of surrounding
  whitespace; if the preamble has no \<open>| \<close> it is \<open>Unknown Order Type\<close>. This is the record's
  \<open>Order Type\<close> entry whenever the body has no field whose tag code is \<open>Order Type\<close>.
\<close>

lemma extracted_classifier:
  assumes "line = pre @ '']: '' @ body" and "\<not> contains pre '']: ''"
  shows "(pre = a @ ''| '' @ b \<and> \<not> contains a ''| '' \<longrightarrow>
           (\<exists>tid m.
              extract_preamble_details line = Inr (tid, strip b) \<and>
              parse_message line = Inr m \<and>
              (''Order Type'' \<notin> fst ` set (fields body) \<longrightarrow>
                 map_of m ''Order Type'' = Some (Str (strip b))))) \<and>
         (\<not> contains pre ''| '' \<longrightarrow>
           (\<exists>tid m.
              extract_preamble_details line = Inr (tid, ''Unknown Order Type'') \<and>
              parse_message line = Inr m \<and>
              (''Order Type'' \<notin> fst ` set (fields body) \<longrightarrow>
                 map_of m ''Order Type'' = Some (Str ''Unknown Order Type''))))"
proof (intro conjI impI)
  assume h: "pre = a @ ''| '' @ b \<and> \<not> contains a ''| ''"
  then obtain tid where
    e: "extract_preamble_details (pre @ '']: '' @ body) = Inr (tid, strip b)"
    using extract_order_type_found [OF assms(2), of a b body] by blast
  obtain m where m: "parse_message (pre @ '']: '' @ body) = Inr m"
    using parse_message_on_line [OF assms(2) e] by blast
  show "\<exists>tid m.
          extract_preamble_details line = Inr (tid, strip b) \<and>
          parse_message line = Inr m \<and>
          (''Order Type'' \<notin> fst ` set (fields body) \<longrightarrow>
             map_of m ''Order Type'' = Some (Str (strip b)))"
    unfolding assms(1) using e m record_Order_Type [OF assms(2) e] by auto
next
  assume h: "\<not> contains pre ''| ''"
  then obtain tid where
    e: "extract_preamble_details (pre @ '']: '' @ body) = Inr (tid, ''Unknown Order Type'')"
    using extract_order_type_absent [OF assms(2), of body] by blast
  obtain m where m: "parse_message (pre @ '']: '' @ body) = Inr m"
    using parse_message_on_line [OF assms(2) e] by blast
  show "\<exists>tid m.
          extract_preamble_details line = Inr (tid, ''Unknown Order Type'') \<and>
          parse_message line = Inr m \<and>
          (''Order Type'' \<notin> fst ` set (fields body) \<longrightarrow>
             map_of m ''Order Type'' = Some (Str ''Unknown Order Type''))"
    unfolding assms(1) using e m record_Order_Type [OF assms(2) e] by auto
qed

text \<open>The extraction at two lines: one whose preamble has two \<open>| \<close>, of which the first counts, and
  one whose preamble has none.\<close>

lemma extracted_classifier_example:
  "(\<exists>tid m.
      extract_preamble_details ''Session(TID=XYZ123) | New | Order  ]: 35=D|55=AAPL'' =
        Inr (tid, ''New | Order'') \<and>
      parse_message ''Session(TID=XYZ123) | New | Order  ]: 35=D|55=AAPL'' = Inr m \<and>
      map_of m ''Order Type'' = Some (Str ''New | Order'')) \<and>
   (\<exists>tid m.
      extract_preamble_details ''Session(TID=XYZ123)]: 35=D|55=AAPL'' =
        Inr (tid, ''Unknown Order Type'') \<and>
      parse_message ''Session(TID=XYZ123)]: 35=D|55=AAPL'' = Inr m \<and>
      map_of m ''Order Type'' = Some (Str ''Unknown Order Type''))"
proof -
  have f: "''Order Type'' \<notin> fst ` set (fields ''35=D|55=AAPL'')"
    by (simp add: eval_defs)
  have s: "strip ''New | Order  '' = ''New | Order''"
    by (simp add: strip_def isspace_def)
  have 1: "''Session(TID=XYZ123) | New | Order  ]: 35=D|55=AAPL'' =
             ''Session(TID=XYZ123) | New | Order  '' @ '']: '' @ ''35=D|55=AAPL''" by simp
  have 2: "\<not> contains ''Session(TID=XYZ123) | New | Order  '' '']: ''" by simp
  have 3: "''Session(TID=XYZ123) | New | Order  '' =
             ''Session(TID=XYZ123) '' @ ''| '' @ ''New | Order  '' \<and>
           \<not> contains ''Session(TID=XYZ123) '' ''| ''" by simp
  have 4: "''Session(TID=XYZ123)]: 35=D|55=AAPL'' =
             ''Session(TID=XYZ123)'' @ '']: '' @ ''35=D|55=AAPL''" by simp
  have 5: "\<not> contains ''Session(TID=XYZ123)'' '']: ''" by simp
  have 6: "\<not> contains ''Session(TID=XYZ123)'' ''| ''" by simp
  show ?thesis
    using extracted_classifier [OF 1 2, of "''Session(TID=XYZ123) ''" "''New | Order  ''"]
      extracted_classifier [OF 4 5, of "''Session(TID=XYZ123) ''" "''New | Order  ''"]
      3 6 f s
    by (simp only: simp_thms)
qed

text \<open>
  The unclosed marker. Let the line be \<open>pre @ ']: ' @ body\<close> with no \<open>]: \<close> in \<open>pre\<close>. If the first \<open>(TID=\<close>
  of the preamble starts after \<open>a\<close> and no \<open>)\<close> follows it, the search for \<open>)\<close> gives \<open>-1\<close>, the
  slice ends at \<open>0\<close>, and the transaction identifier that \<open>extract_preamble_details\<close> returns is
  the empty string: neither \<open>Unknown TID\<close> nor the rest of the preamble. This is the record's
  \<open>TID\<close> entry whenever the body has no field whose tag code is \<open>TID\<close>.
\<close>

lemma extracted_unclosed_transaction_id:
  assumes "line = pre @ '']: '' @ body" and "\<not> contains pre '']: ''"
    and "pre = a @ ''(TID='' @ rest" and "\<not> contains a ''(TID=''" and "CHR '')'' \<notin> set rest"
  shows "\<exists>order_type m.
           extract_preamble_details line = Inr ('''', order_type) \<and>
           parse_message line = Inr m \<and>
           (''TID'' \<notin> fst ` set (fields body) \<longrightarrow> map_of m ''TID'' = Some (Str ''''))"
proof -
  obtain order_type where
    e: "extract_preamble_details (pre @ '']: '' @ body) = Inr ('''', order_type)"
    using extract_tid_unclosed [OF assms(2-5), of body] by blast
  obtain m where m: "parse_message (pre @ '']: '' @ body) = Inr m"
    using parse_message_on_line [OF assms(2) e] by blast
  show ?thesis
    unfolding assms(1) using e m record_TID [OF assms(2) e] by auto
qed

text \<open>The extraction at a line whose marker is never closed.\<close>

lemma extracted_unclosed_transaction_id_example:
  "(\<exists>order_type m.
      extract_preamble_details ''Session(TID=XYZ123 | NewOrder]: 35=D|55=AAPL'' =
        Inr ('''', order_type) \<and>
      parse_message ''Session(TID=XYZ123 | NewOrder]: 35=D|55=AAPL'' = Inr m \<and>
      map_of m ''TID'' = Some (Str '''')) \<and>
   '''' \<noteq> ''Unknown TID'' \<and> '''' \<noteq> ''XYZ123 | NewOrder''"
proof -
  have f: "''TID'' \<notin> fst ` set (fields ''35=D|55=AAPL'')"
    by (simp add: eval_defs)
  have 1: "''Session(TID=XYZ123 | NewOrder]: 35=D|55=AAPL'' =
             ''Session(TID=XYZ123 | NewOrder'' @ '']: '' @ ''35=D|55=AAPL''" by simp
  have 2: "\<not> contains ''Session(TID=XYZ123 | NewOrder'' '']: ''" by simp
  have 3: "''Session(TID=XYZ123 | NewOrder'' = ''Session'' @ ''(TID='' @ ''XYZ123 | NewOrder''"
    by simp
  have 4: "\<not> contains ''Session'' ''(TID=''" by simp
  have 5: "CHR '')'' \<notin> set ''XYZ123 | NewOrder''" by simp
  show ?thesis
    using extracted_unclosed_transaction_id [OF 1 2 3 4 5] f
    by (simp only: simp_thms list.distinct not_False_eq_True)
qed

text \<open>
  Claim C3 fails on the code. \<open>columns_mapping\<close> lists \<open>TID\<close> and \<open>Order Type\<close> among the tag
  codes, so a part \<open>TID=...\<close> or \<open>Order Type=...\<close> of the body is stored under the key that holds
  the value extracted from the preamble. The two lines below have the same preamble and
  different transaction identifiers and classifiers.
\<close>

theorem pseudo_fields_overwritten_by_body:
  "parse_message ''Session(TID=XYZ123) | NewOrder]: 35=D|55=AAPL'' =
     Inr [(''Unknown Tags'', Dct []), (''TID'', Str ''Session(TID=XYZ123)''),
          (''Order Type'', Str ''NewOrder''), (''35 MsgType'', Str ''D''),
          (''55 Symbol'', Str ''AAPL'')] \<and>
   parse_message ''Session(TID=XYZ123) | NewOrder]: 35=D|TID=FORGED|Order Type=Cancel'' =
     Inr [(''Unknown Tags'', Dct []), (''TID'', Str ''FORGED''),
          (''Order Type'', Str ''Cancel''), (''35 MsgType'', Str ''D'')]"
  by (simp add: eval_defs)

text \<open>
  Claim C8 fails on the code, by the same defect as claim C3. The preamble of the line below
  contains \<open>| \<close>, and the text after its first occurrence, stripped, is \<open>NewOrder\<close>; this is
  what \<open>extract_preamble_details\<close> returns. The body has the part \<open>Order Type=Cancel\<close>, whose key
  is in \<open>columns_mapping\<close>, so the loop stores \<open>Cancel\<close> under \<open>Order Type\<close>: the decoded
  classifier is \<open>Cancel\<close>.
\<close>

theorem classifier_overwritten_by_body:
  "extract_preamble_details ''Session(TID=XYZ123) | NewOrder]: 35=D|Order Type=Cancel'' =
     Inr (''Session(TID=XYZ123)'', ''NewOrder'') \<and>
   parse_message ''Session(TID=XYZ123) | NewOrder]: 35=D|Order Type=Cancel'' =
     Inr [(''Unknown Tags'', Dct []), (''TID'', Str ''Session(TID=XYZ123)''),
          (''Order Type'', Str ''Cancel''), (''35 MsgType'', Str ''D'')] \<and>
   ''Cancel'' \<noteq> ''NewOrder''"
  by (simp add: eval_defs)

text \<open>
  Claim C10 fails on the code, by the same defect as claim C3. The preamble of the line below
  contains \<open>(TID=\<close> and no \<open>)\<close> after it, and \<open>extract_preamble_details\<close> returns the empty string
  as the transaction identifier. The body has the part \<open>TID=FORGED\<close>, whose key is in
  \<open>columns_mapping\<close>, so the loop stores \<open>FORGED\<close> under \<open>TID\<close>: the decoded transaction
  identifier is \<open>FORGED\<close>, not the empty string.
\<close>

theorem unclosed_transaction_id_overwritten_by_body:
  "extract_preamble_details ''Session(TID=XYZ123 | NewOrder]: 35=D|TID=FORGED'' =
     Inr ([], ''NewOrder'') \<and>
   parse_message ''Session(TID=XYZ123 | NewOrder]: 35=D|TID=FORGED'' =
     Inr [(''Unknown Tags'', Dct []), (''TID'', Str ''FORGED''),
          (''Order Type'', Str ''NewOrder''), (''35 MsgType'', Str ''D'')] \<and>
   ''FORGED'' \<noteq> []"
  by (simp add: eval_defs)

section \<open>The repeating group\<close>

lemma record_repeating_group:
  assumes "\<not> contains pre '']: ''"
  shows "\<exists>m. parse_message (pre @ '']: '' @ body) = Inr m \<and>
     (if occurrences ''448'' body \<noteq> []
      then map_of m ''448 PartyID'' = Some (Lst (occurrences ''448'' body)) \<and>
           map_of m ''447 PartyIDSource'' = Some (Lst (occurrences ''447'' body)) \<and>
           map_of m ''452 PartyRole'' = Some (Lst (occurrences ''452'' body))
      else map_of m ''448 PartyID'' = None \<and>
           map_of m ''447 PartyIDSource'' = None \<and>
           map_of m ''452 PartyRole'' = None)"
proof -
  obtain tid order_type where
    e: "extract_preamble_details (pre @ '']: '' @ body) = Inr (tid, order_type)"
    using extract_total [OF assms] by blast
  define st where "st = fold (\<lambda>(key, value). store_field key value) (fields body)
                     \<lparr>data = [(''Unknown Tags'', Dct []), (''TID'', Str tid),
                              (''Order Type'', Str order_type)],
                      partyIDs = [], partyIDSources = [], partyRoles = []\<rparr>"
  define m where "m = (if partyIDs st \<noteq> []
             then setitem (setitem (setitem (data st)
                    ''448 PartyID'' (Lst (partyIDs st)))
                    ''447 PartyIDSource'' (Lst (partyIDSources st)))
                    ''452 PartyRole'' (Lst (partyRoles st))
             else data st)"
  have pm: "parse_message (pre @ '']: '' @ body) = Inr m"
    unfolding parse_message_on_line [OF assms e] m_def st_def by (simp only: Let_def)
  have ids: "partyIDs st = occurrences ''448'' body"
    and srcs: "partyIDSources st = occurrences ''447'' body"
    and roles: "partyRoles st = occurrences ''452'' body"
    by (simp_all add: st_def occurrences_def fold_store_partyIDs fold_store_partyIDSources
        fold_store_partyRoles)
  have untouched: "map_of (data st) c = None"
    if "c \<in> set [''448 PartyID'', ''447 PartyIDSource'', ''452 PartyRole'']" for c
  proof -
    have "\<forall>key \<in> fst ` set (fields body). column_of key \<noteq> Some c"
      using that column_of_not_repeated by auto
    from fold_store_lookup [OF this] show ?thesis
      unfolding st_def using that by auto
  qed
  show ?thesis
  proof (cases "occurrences ''448'' body = []")
    case True
    then have "m = data st" by (simp add: m_def ids)
    then show ?thesis using pm True untouched by simp
  next
    case False
    then have "m = setitem (setitem (setitem (data st)
                    ''448 PartyID'' (Lst (occurrences ''448'' body)))
                    ''447 PartyIDSource'' (Lst (occurrences ''447'' body)))
                    ''452 PartyRole'' (Lst (occurrences ''452'' body))"
      by (simp add: m_def ids srcs roles)
    then show ?thesis using pm False by (simp add: map_of_setitem)
  qed
qed

text \<open>
  Claim C2 as first stated fails on the code: the lists are attached under the guard
  \<open>if partyIDs\<close>, which looks at the PartyID container alone. For a body with \<open>447=B\<close> and no tag
  \<open>448\<close> the record carries none of the three sequences, and the value \<open>B\<close> is not in it.
\<close>

theorem repeating_group_attached_iff_party_id_counterexample:
  "parse_message ''Session(TID=XYZ123) | NewOrder]: 447=B|35=D'' =
     Inr [(''Unknown Tags'', Dct []), (''TID'', Str ''Session(TID=XYZ123)''),
          (''Order Type'', Str ''NewOrder''), (''35 MsgType'', Str ''D'')]"
  by (simp add: eval_defs)

text \<open>
  Claim C2, as amended. Let the line be \<open>pre @ ']: ' @ body\<close> with no \<open>]: \<close> in \<open>pre\<close>. If the
  PartyID sequence (the values of tag \<open>448\<close> in the body) is not empty, the record has all three
  sequences, under \<open>448 PartyID\<close>, \<open>447 PartyIDSource\<close> and \<open>452 PartyRole\<close>; if it is empty, the
  record has none of the three keys, whatever the body gives to tags \<open>447\<close> and \<open>452\<close>.
\<close>

theorem repeating_group_attached_iff_party_id:
  assumes "line = pre @ '']: '' @ body" and "\<not> contains pre '']: ''"
  shows "\<exists>m. parse_message line = Inr m \<and>
     (occurrences ''448'' body \<noteq> [] \<longrightarrow>
        map_of m ''448 PartyID'' = Some (Lst (occurrences ''448'' body)) \<and>
        map_of m ''447 PartyIDSource'' = Some (Lst (occurrences ''447'' body)) \<and>
        map_of m ''452 PartyRole'' = Some (Lst (occurrences ''452'' body))) \<and>
     (occurrences ''448'' body = [] \<longrightarrow>
        map_of m ''448 PartyID'' = None \<and>
        map_of m ''447 PartyIDSource'' = None \<and>
        map_of m ''452 PartyRole'' = None)"
proof -
  obtain m where "parse_message (pre @ '']: '' @ body) = Inr m \<and>
     (if occurrences ''448'' body \<noteq> []
      then map_of m ''448 PartyID'' = Some (Lst (occurrences ''448'' body)) \<and>
           map_of m ''447 PartyIDSource'' = Some (Lst (occurrences ''447'' body)) \<and>
           map_of m ''452 PartyRole'' = Some (Lst (occurrences ''452'' body))
      else map_of m ''448 PartyID'' = None \<and>
           map_of m ''447 PartyIDSource'' = None \<and>
           map_of m ''452 PartyRole'' = None)"
    using record_repeating_group [OF assms(2)] by blast
  then show ?thesis unfolding assms(1) by (cases "occurrences ''448'' body = []") auto
qed

text \<open>The amended claim C2 at a line with one PartyID and no PartyRole, and at a line with a
  PartyIDSource and no PartyID.\<close>

theorem repeating_group_attached_iff_party_id_witness:
  "(\<exists>m. parse_message ''Session(TID=XYZ123) | NewOrder]: 448=A|447=B|35=D'' = Inr m \<and>
        map_of m ''448 PartyID'' = Some (Lst [''A'']) \<and>
        map_of m ''447 PartyIDSource'' = Some (Lst [''B'']) \<and>
        map_of m ''452 PartyRole'' = Some (Lst [])) \<and>
   (\<exists>m. parse_message ''Session(TID=XYZ123) | NewOrder]: 447=B|35=D'' = Inr m \<and>
        map_of m ''448 PartyID'' = None \<and>
        map_of m ''447 PartyIDSource'' = None \<and>
        map_of m ''452 PartyRole'' = None)"
proof -
  have o1: "occurrences ''448'' ''448=A|447=B|35=D'' = [''A'']"
    "occurrences ''447'' ''448=A|447=B|35=D'' = [''B'']"
    "occurrences ''452'' ''448=A|447=B|35=D'' = []"
    by (simp_all add: occurrences_def eval_defs)
  have o2: "occurrences ''448'' ''447=B|35=D'' = []"
    by (simp add: occurrences_def eval_defs)
  have 1: "''Session(TID=XYZ123) | NewOrder]: 448=A|447=B|35=D'' =
             ''Session(TID=XYZ123) | NewOrder'' @ '']: '' @ ''448=A|447=B|35=D''" by simp
  have 2: "''Session(TID=XYZ123) | NewOrder]: 447=B|35=D'' =
             ''Session(TID=XYZ123) | NewOrder'' @ '']: '' @ ''447=B|35=D''" by simp
  have 3: "\<not> contains ''Session(TID=XYZ123) | NewOrder'' '']: ''" by simp
  show ?thesis
    using repeating_group_attached_iff_party_id [OF 1 3]
      repeating_group_attached_iff_party_id [OF 2 3]
    by (simp only: o1 o2 simp_thms list.distinct not_False_eq_True)
qed

text \<open>
  Claim C7. The loop over the parts of a body appends the values of the tags \<open>448\<close>, \<open>447\<close> and
  \<open>452\<close> to their containers in the order in which they occur in the body. For every line
  whose body is \<open>448=A|447=B|452=1|448=C|447=D|452=2\<close> the record's PartyID sequence is \<open>[A, C]\<close>,
  its PartyIDSource sequence \<open>[B, D]\<close> and its PartyRole sequence \<open>[1, 2]\<close>.
\<close>

theorem repeated_tags_in_encounter_order:
  "(\<exists>st'. parse_parts (str_split body CHR ''|'') st = Inr st' \<and>
      partyIDs st' = partyIDs st @ occurrences ''448'' body \<and>
      partyIDSources st' = partyIDSources st @ occurrences ''447'' body \<and>
      partyRoles st' = partyRoles st @ occurrences ''452'' body) \<and>
   (\<not> contains pre '']: '' \<longrightarrow>
      (\<exists>m. parse_message (pre @ '']: '' @ ''448=A|447=B|452=1|448=C|447=D|452=2'') = Inr m \<and>
         map_of m ''448 PartyID'' = Some (Lst [''A'', ''C'']) \<and>
         map_of m ''447 PartyIDSource'' = Some (Lst [''B'', ''D'']) \<and>
         map_of m ''452 PartyRole'' = Some (Lst [''1'', ''2''])))"
proof (intro conjI impI)
  show "\<exists>st'. parse_parts (str_split body CHR ''|'') st = Inr st' \<and>
      partyIDs st' = partyIDs st @ occurrences ''448'' body \<and>
      partyIDSources st' = partyIDSources st @ occurrences ''447'' body \<and>
      partyRoles st' = partyRoles st @ occurrences ''452'' body"
    by (simp add: parse_parts_fields occurrences_def fields_def fold_store_partyIDs
        fold_store_partyIDSources fold_store_partyRoles)
next
  assume pre: "\<not> contains pre '']: ''"
  have o: "occurrences ''448'' ''448=A|447=B|452=1|448=C|447=D|452=2'' = [''A'', ''C'']"
    "occurrences ''447'' ''448=A|447=B|452=1|448=C|447=D|452=2'' = [''B'', ''D'']"
    "occurrences ''452'' ''448=A|447=B|452=1|448=C|447=D|452=2'' = [''1'', ''2'']"
    by (simp_all add: occurrences_def eval_defs)
  show "\<exists>m. parse_message (pre @ '']: '' @ ''448=A|447=B|452=1|448=C|447=D|452=2'') = Inr m \<and>
         map_of m ''448 PartyID'' = Some (Lst [''A'', ''C'']) \<and>
         map_of m ''447 PartyIDSource'' = Some (Lst [''B'', ''D'']) \<and>
         map_of m ''452 PartyRole'' = Some (Lst [''1'', ''2''])"
    using record_repeating_group [OF pre, of "''448=A|447=B|452=1|448=C|447=D|452=2''"]
    by (simp only: o list.distinct not_False_eq_True if_True simp_thms)
qed

text \<open>Claim C7 at the line of the specification's example, and the loop on a body in which
  other fields stand between the repeated tags.\<close>

theorem repeated_tags_in_encounter_order_witness:
  "(\<exists>st'. parse_parts (str_split ''448=A|35=D|452=1|junk|448=C'' CHR ''|'')
             \<lparr>data = [], partyIDs = [], partyIDSources = [], partyRoles = []\<rparr> = Inr st' \<and>
      partyIDs st' = [''A'', ''C''] \<and> partyIDSources st' = [] \<and> partyRoles st' = [''1'']) \<and>
   (\<exists>m. parse_message
           ''Session(TID=XYZ123) | NewOrder]: 448=A|447=B|452=1|448=C|447=D|452=2'' = Inr m \<and>
      map_of m ''448 PartyID'' = Some (Lst [''A'', ''C'']) \<and>
      map_of m ''447 PartyIDSource'' = Some (Lst [''B'', ''D'']) \<and>
      map_of m ''452 PartyRole'' = Some (Lst [''1'', ''2'']))"
proof -
  have o: "occurrences ''448'' ''448=A|35=D|452=1|junk|448=C'' = [''A'', ''C'']"
    "occurrences ''447'' ''448=A|35=D|452=1|junk|448=C'' = []"
    "occurrences ''452'' ''448=A|35=D|452=1|junk|448=C'' = [''1'']"
    by (simp_all add: occurrences_def eval_defs)
  have 1: "\<not> contains ''Session(TID=XYZ123) | NewOrder'' '']: ''" by simp
  have 2: "''Session(TID=XYZ123) | NewOrder'' @ '']: '' @ ''448=A|447=B|452=1|448=C|447=D|452=2'' =
           ''Session(TID=XYZ123) | NewOrder]: 448=A|447=B|452=1|448=C|447=D|452=2''" by simp
  show ?thesis
    using repeated_tags_in_encounter_order
      [of "''448=A|35=D|452=1|junk|448=C''"
          "\<lparr>data = [], partyIDs = [], partyIDSources = [], partyRoles = []\<rparr>"
          "''Session(TID=XYZ123) | NewOrder''"] 1
    by (simp only: o 2 simp_thms parse_state.simps append_Nil)
qed

section \<open>Keys in order of first appearance\<close>

lemma set_fold_ins: "set (fold ins xs acc) = set acc \<union> set xs"
  by (induction xs arbitrary: acc) (auto simp: ins_def)

lemma distinct_fold_ins: "distinct acc \<Longrightarrow> distinct (fold ins xs acc)"
  by (induction xs arbitrary: acc) (auto simp: ins_def)

lemma filter_ins: "filter P (ins x acc) = (if P x then ins x (filter P acc) else filter P acc)"
  by (simp add: ins_def)

lemma filter_fold_ins: "filter P (fold ins xs acc) = fold ins (filter P xs) (filter P acc)"
  by (induction xs arbitrary: acc) (simp_all add: filter_ins)

lemma fold_ins_snoc: "fold ins (xs @ [x]) acc = ins x (fold ins xs acc)"
  by simp

lemma fold_ins_first_seen: "fold ins (first_seen xs) acc = fold ins xs acc"
proof (induction xs rule: rev_induct)
  case Nil
  then show ?case by (simp add: first_seen_def)
next
  case (snoc x xs)
  show ?case
  proof (cases "x \<in> set xs")
    case True
    then have "first_seen (xs @ [x]) = first_seen xs"
      by (simp add: first_seen_def ins_def set_fold_ins)
    moreover have "fold ins (xs @ [x]) acc = fold ins xs acc"
      using True by (simp add: ins_def set_fold_ins)
    ultimately show ?thesis using snoc.IH by simp
  next
    case False
    then have "first_seen (xs @ [x]) = first_seen xs @ [x]"
      by (simp add: first_seen_def ins_def set_fold_ins)
    then show ?thesis using snoc.IH by simp
  qed
qed

lemma fold_ins_concat_first_seen:
  "fold ins (concat (map first_seen xss)) acc = fold ins (concat xss) acc"
  by (induction xss arbitrary: acc) (simp_all add: fold_ins_first_seen)

lemma fold_ins_map:
  assumes "inj f" and "u \<notin> range f"
  shows "fold ins (map f xs) (u # map f acc) = u # map f (fold ins xs acc)"
proof (induction xs arbitrary: acc)
  case Nil
  then show ?case by simp
next
  case (Cons x xs)
  have "f x \<noteq> u" using assms(2) by auto
  moreover have "f x \<in> f ` set acc \<longleftrightarrow> x \<in> set acc"
    using assms(1) by (auto dest: injD)
  ultimately have "ins (f x) (u # map f acc) = u # map f (ins x acc)"
    by (simp add: ins_def)
  then show ?case using Cons.IH by simp
qed

lemma fold_ins_headed:
  assumes "inj f" and "u \<notin> range f"
  shows "fold ins (concat (map (\<lambda>x. u # map f (g x)) xs)) (u # map f acc) =
           u # map f (fold ins (concat (map g xs)) acc)"
proof (induction xs arbitrary: acc)
  case Nil
  then show ?case by simp
next
  case (Cons x xs)
  have "ins u (u # map f acc) = u # map f acc" by (simp add: ins_def)
  then show ?case using Cons.IH by (simp add: fold_ins_map [OF assms])
qed

lemma first_seen_headed:
  assumes "inj f" and "u \<notin> range f"
  shows "first_seen (concat (map (\<lambda>x. u # map f (g x)) xs)) =
           (if xs = [] then [] else [u]) @ map f (first_seen (concat (map g xs)))"
proof (cases xs)
  case Nil
  then show ?thesis by (simp add: first_seen_def)
next
  case (Cons x rest)
  have "ins u [] = u # map f []" by (simp add: ins_def)
  then have "fold ins (u # map f (g x)) [] = u # map f (fold ins (g x) [])"
    using fold_ins_map [OF assms, of "g x" "[]"] by simp
  then show ?thesis
    using Cons fold_ins_headed [OF assms, of g rest "fold ins (g x) []"]
    by (simp add: first_seen_def)
qed

lemma distinct_first_seen: "distinct (first_seen xs)"
  by (simp add: first_seen_def distinct_fold_ins)

lemma filter_first_seen: "filter P (first_seen xs) = first_seen (filter P xs)"
  by (simp add: first_seen_def filter_fold_ins)

section \<open>The columns a record contributes\<close>

lemma ordered_columns_eq: "ordered_columns = map snd columns_mapping"
  by (simp add: ordered_columns_def columns_mapping_def)

lemma known_in_ordered: "map_of columns_mapping key = Some name \<Longrightarrow> name \<in> set ordered_columns"
  unfolding ordered_columns_eq by (drule map_of_SomeD) force

lemma distinct_ordered_columns: "distinct ordered_columns"
  by (simp add: ordered_columns_eq columns_mapping_def)

lemma ordered_not_unknown: "\<forall>c \<in> set ordered_columns. \<not> prefix ''Unknown Tag '' c"
  by (simp add: ordered_columns_eq columns_mapping_def)

lemma unknown_not_ordered: "unknown_column code \<notin> set ordered_columns"
  using ordered_not_unknown by (auto simp: unknown_column_def)

lemma Unknown_Tags_not_ordered: "''Unknown Tags'' \<notin> set ordered_columns"
  by (simp add: ordered_columns_eq columns_mapping_def)

lemma pseudo_and_repeated_ordered:
  "''TID'' \<in> set ordered_columns" "''Order Type'' \<in> set ordered_columns"
  "''448 PartyID'' \<in> set ordered_columns" "''447 PartyIDSource'' \<in> set ordered_columns"
  "''452 PartyRole'' \<in> set ordered_columns"
  by (simp_all add: ordered_columns_eq columns_mapping_def)

lemma inj_unknown: "inj unknown_column"
  by (rule injI) (simp add: unknown_column_def)

lemma Unknown_Tags_not_unknown: "''Unknown Tags'' \<notin> range unknown_column"
  by (auto simp: unknown_column_def)

lemma store_field_extra_keys:
  "filter (\<lambda>c. c \<notin> set ordered_columns) (map fst (data (store_field key value st))) =
     fold ins (map unknown_column
                 (filter (\<lambda>key. map_of columns_mapping key = None) [key]))
       (filter (\<lambda>c. c \<notin> set ordered_columns) (map fst (data st)))"
proof (cases "map_of columns_mapping key")
  case None
  have "setitem (data st) (''Unknown Tag '' @ key) (Str value) =
        setitem (data st) (unknown_column key) (Str value)"
    by (simp add: unknown_column_def)
  then show ?thesis
    using None
    by (simp add: store_field_data column_of_def keys_setitem filter_ins unknown_not_ordered
        del: append.simps)
next
  case (Some name)
  then show ?thesis
    using known_in_ordered [OF Some]
    by (simp add: store_field_data column_of_def keys_setitem filter_ins)
qed

lemma fold_store_extra_keys:
  "filter (\<lambda>c. c \<notin> set ordered_columns)
       (map fst (data (fold (\<lambda>(key, value). store_field key value) fs st))) =
     fold ins (map unknown_column
                 (filter (\<lambda>key. map_of columns_mapping key = None) (map fst fs)))
       (filter (\<lambda>c. c \<notin> set ordered_columns) (map fst (data st)))"
proof (induction fs arbitrary: st)
  case Nil
  then show ?case by simp
next
  case (Cons f fs)
  obtain key val where f: "f = (key, val)" by (cases f)
  show ?case
    unfolding f using Cons.IH [of "store_field key val st"]
    by (simp add: store_field_extra_keys)
qed

lemma record_extra_keys:
  assumes "\<not> contains pre '']: ''"
  shows "\<exists>m. parse_message (pre @ '']: '' @ body) = Inr m \<and>
     filter (\<lambda>c. c \<notin> set ordered_columns) (map fst m) =
       first_seen (''Unknown Tags'' # map unknown_column (unknown_codes body))"
proof -
  obtain tid order_type where
    e: "extract_preamble_details (pre @ '']: '' @ body) = Inr (tid, order_type)"
    using extract_total [OF assms] by blast
  define st where "st = fold (\<lambda>(key, value). store_field key value) (fields body)
                     \<lparr>data = [(''Unknown Tags'', Dct []), (''TID'', Str tid),
                              (''Order Type'', Str order_type)],
                      partyIDs = [], partyIDSources = [], partyRoles = []\<rparr>"
  define m where "m = (if partyIDs st \<noteq> []
             then setitem (setitem (setitem (data st)
                    ''448 PartyID'' (Lst (partyIDs st)))
                    ''447 PartyIDSource'' (Lst (partyIDSources st)))
                    ''452 PartyRole'' (Lst (partyRoles st))
             else data st)"
  have pm: "parse_message (pre @ '']: '' @ body) = Inr m"
    unfolding parse_message_on_line [OF assms e] m_def st_def by (simp only: Let_def)
  have "filter (\<lambda>c. c \<notin> set ordered_columns) (map fst m) =
        filter (\<lambda>c. c \<notin> set ordered_columns) (map fst (data st))"
    by (simp add: m_def keys_setitem filter_ins pseudo_and_repeated_ordered)
  also have "\<dots> = fold ins (map unknown_column (unknown_codes body))
                     [''Unknown Tags'']"
    unfolding st_def fold_store_extra_keys unknown_codes_def
    by (simp add: pseudo_and_repeated_ordered Unknown_Tags_not_ordered)
  also have "\<dots> = first_seen (''Unknown Tags'' #
                       map unknown_column (unknown_codes body))"
    by (simp add: first_seen_def ins_def)
  finally show ?thesis using pm by blast
qed

lemma message_body_eq:
  assumes "\<not> contains pre '']: ''"
  shows "message_body (pre @ '']: '' @ body) = body"
  unfolding message_body_def split_line [OF assms] by simp

lemma decoded_line:
  assumes "parse_message line = Inr m"
  obtains pre where "line = pre @ '']: '' @ message_body line" and "\<not> contains pre '']: ''"
proof -
  have "contains line '']: ''"
    using assms parse_message_absent [of line] by auto
  then obtain pre body where l: "line = pre @ '']: '' @ body" and p: "\<not> contains pre '']: ''"
    using first_occurrence_decomp [of "'']: ''" line] by auto
  then have "message_body line = body" using message_body_eq by simp
  then show ?thesis using that l p by simp
qed

section \<open>Batches of lines\<close>

lemma process_file_Inr:
  assumes "process_file lines = Inr msgs"
  shows "map parse_message (filter (\<lambda>line. strip line \<noteq> []) lines) = map Inr msgs"
  using assms
proof (induction lines arbitrary: msgs)
  case Nil
  then show ?case by simp
next
  case (Cons line rest)
  show ?case
  proof (cases "strip line \<noteq> []")
    case True
    with Cons.prems obtain m ms where "parse_message line = Inr m" "process_file rest = Inr ms"
      "msgs = m # ms"
      by (auto split: sum.splits)
    then show ?thesis using True Cons.IH by simp
  next
    case False
    then show ?thesis using Cons by simp
  qed
qed

lemma process_file_well_formed:
  assumes "\<forall>line \<in> set lines. strip line \<noteq> [] \<longrightarrow> contains line '']: ''"
  shows "\<exists>msgs. process_file lines = Inr msgs"
  using assms
proof (induction lines)
  case Nil
  then show ?case by simp
next
  case (Cons line rest)
  then obtain ms where ms: "process_file rest = Inr ms" by auto
  show ?case
  proof (cases "strip line \<noteq> []")
    case True
    then have "contains line '']: ''" using Cons.prems by simp
    then obtain m where "parse_message line = Inr m" using parse_message_present by blast
    then show ?thesis using True ms by simp
  next
    case False
    then show ?thesis using ms by simp
  qed
qed

lemma process_file_malformed:
  assumes "\<exists>line \<in> set lines. strip line \<noteq> [] \<and> \<not> contains line '']: ''"
  shows "process_file lines = Inl ValueError"
  using assms
proof (induction lines)
  case Nil
  then show ?case by simp
next
  case (Cons line rest)
  show ?case
  proof (cases "strip line \<noteq> [] \<and> \<not> contains line '']: ''")
    case True
    then have "parse_message line = Inl ValueError" by (simp add: parse_message_absent)
    then show ?thesis using True by simp
  next
    case False
    then have "\<exists>l \<in> set rest. strip l \<noteq> [] \<and> \<not> contains l '']: ''"
      using Cons.prems by auto
    then have rest: "process_file rest = Inl ValueError" by (rule Cons.IH)
    show ?thesis
    proof (cases "parse_message line")
      case (Inl e)
      then show ?thesis using rest by (cases e) simp
    next
      case (Inr m)
      then show ?thesis using rest by simp
    qed
  qed
qed

text \<open>
  Claim C1 as first stated fails on the code: \<open>process_file\<close> has no handler, so the
  \<open>ValueError\<close> of one line leaves the list comprehension, and the records decoded before it are
  not returned. The batch below has two well-formed lines around a malformed one.
\<close>

theorem batch_decodes_iff_all_lines_well_formed_counterexample:
  "process_file [''Session(TID=XYZ123) | NewOrder]: 35=D|55=AAPL'',
                 ''this line has no separator'',
                 ''Session(TID=XYZ124) | NewOrder]: 35=D|55=MSFT''] = Inl ValueError"
  by (simp add: eval_defs)

text \<open>
  Claim C1, as amended. A batch in which some line that is not blank lacks the separator
  \<open>]: \<close> fails as a whole with the \<open>ValueError\<close> of that line and yields no records. A batch in
  which every line that is not blank contains the separator yields the decoded records of
  exactly these lines, in their order; blank lines are skipped.
\<close>

theorem batch_decodes_iff_all_lines_well_formed:
  "(if \<forall>line \<in> set lines. strip line \<noteq> [] \<longrightarrow> contains line '']: ''
    then \<exists>msgs. process_file lines = Inr msgs \<and>
           map parse_message (filter (\<lambda>line. strip line \<noteq> []) lines) = map Inr msgs
    else process_file lines = Inl ValueError)"
proof (cases "\<forall>line \<in> set lines. strip line \<noteq> [] \<longrightarrow> contains line '']: ''")
  case True
  then obtain msgs where "process_file lines = Inr msgs"
    using process_file_well_formed by blast
  then show ?thesis using True process_file_Inr by auto
next
  case False
  then have "\<exists>line \<in> set lines. strip line \<noteq> [] \<and> \<not> contains line '']: ''" by blast
  then show ?thesis using False process_file_malformed by simp
qed

text \<open>The amended claim C1 at a batch of two well-formed lines and a blank one, and at the
  batch with a malformed line.\<close>

theorem batch_decodes_iff_all_lines_well_formed_witness:
  "(\<exists>msgs. process_file [''Session(TID=XYZ123) | NewOrder]: 35=D'', ''   '',
                          ''Session(TID=XYZ124) | NewOrder]: 35=8''] = Inr msgs \<and>
      [parse_message ''Session(TID=XYZ123) | NewOrder]: 35=D'',
       parse_message ''Session(TID=XYZ124) | NewOrder]: 35=8''] = map Inr msgs) \<and>
   process_file [''Session(TID=XYZ123) | NewOrder]: 35=D'', ''this line has no separator''] =
     Inl ValueError"
proof -
  have b: "strip ''   '' = []" "strip ''Session(TID=XYZ123) | NewOrder]: 35=D'' \<noteq> []"
    "strip ''Session(TID=XYZ124) | NewOrder]: 35=8'' \<noteq> []"
    "strip ''this line has no separator'' \<noteq> []"
    by (simp_all add: strip_def isspace_def)
  have c: "contains ''Session(TID=XYZ123) | NewOrder]: 35=D'' '']: ''"
    "contains ''Session(TID=XYZ124) | NewOrder]: 35=8'' '']: ''"
    "\<not> contains ''this line has no separator'' '']: ''"
    by simp_all
  show ?thesis
    using batch_decodes_iff_all_lines_well_formed
        [of "[''Session(TID=XYZ123) | NewOrder]: 35=D'', ''   '',
              ''Session(TID=XYZ124) | NewOrder]: 35=8'']"]
      batch_decodes_iff_all_lines_well_formed
        [of "[''Session(TID=XYZ123) | NewOrder]: 35=D'', ''this line has no separator'']"]
    by (simp add: b c del: process_file.simps)
qed

section \<open>The column order of a batch\<close>

lemma decoded_extra_keys:
  assumes "parse_message line = Inr m"
  shows "filter (\<lambda>c. c \<notin> set ordered_columns) (map fst m) =
           first_seen (''Unknown Tags'' # map unknown_column (unknown_codes (message_body line)))"
proof -
  obtain pre where l: "line = pre @ '']: '' @ message_body line" and p: "\<not> contains pre '']: ''"
    using assms by (rule decoded_line)
  obtain m' where "parse_message (pre @ '']: '' @ message_body line) = Inr m'"
    and k: "filter (\<lambda>c. c \<notin> set ordered_columns) (map fst m') =
           first_seen (''Unknown Tags'' # map unknown_column (unknown_codes (message_body line)))"
    using record_extra_keys [OF p] by blast
  then have "m' = m" using assms l by simp
  then show ?thesis using k by simp
qed

lemma decoded_Unknown_Tags:
  assumes "parse_message line = Inr m"
  shows "map_of m ''Unknown Tags'' = Some (Dct [])"
proof -
  obtain pre where l: "line = pre @ '']: '' @ message_body line" and p: "\<not> contains pre '']: ''"
    using assms by (rule decoded_line)
  obtain m' where "parse_message (pre @ '']: '' @ message_body line) = Inr m'"
    and k: "map_of m' ''Unknown Tags'' = Some (Dct [])"
    using record_Unknown_Tags [OF p] by blast
  then have "m' = m" using assms l by simp
  then show ?thesis using k by simp
qed

lemma batch_extra_keys:
  assumes "process_file lines = Inr msgs"
  shows "map (\<lambda>m. filter (\<lambda>c. c \<notin> set ordered_columns) (map fst m)) msgs =
         map (\<lambda>line. first_seen (''Unknown Tags'' #
                 map unknown_column (unknown_codes (message_body line))))
           (filter (\<lambda>line. strip line \<noteq> []) lines)"
  using assms
proof (induction lines arbitrary: msgs)
  case Nil
  then show ?case by simp
next
  case (Cons line rest)
  show ?case
  proof (cases "strip line \<noteq> []")
    case True
    with Cons.prems obtain m ms where m: "parse_message line = Inr m"
      and ms: "process_file rest = Inr ms" and msgs: "msgs = m # ms"
      by (auto split: sum.splits)
    show ?thesis
      using True msgs decoded_extra_keys [OF m] Cons.IH [OF ms] by simp
  next
    case False
    then show ?thesis using Cons by simp
  qed
qed

lemma batch_Unknown_Tags:
  assumes "process_file lines = Inr msgs"
  shows "\<forall>m \<in> set msgs. map_of m ''Unknown Tags'' = Some (Dct [])"
  using assms
proof (induction lines arbitrary: msgs)
  case Nil
  then show ?case by simp
next
  case (Cons line rest)
  show ?case
  proof (cases "strip line \<noteq> []")
    case True
    with Cons.prems obtain m ms where m: "parse_message line = Inr m"
      and ms: "process_file rest = Inr ms" and msgs: "msgs = m # ms"
      by (auto split: sum.splits)
    show ?thesis
      using msgs decoded_Unknown_Tags [OF m] Cons.IH [OF ms] by simp
  next
    case False
    then show ?thesis using Cons by simp
  qed
qed

lemma batch_length:
  assumes "process_file lines = Inr msgs"
  shows "length msgs = length (filter (\<lambda>line. strip line \<noteq> []) lines)"
  using process_file_Inr [OF assms] by (metis length_map)

lemma extra_columns_alt:
  "extra_columns msgs =
     first_seen (concat (map (\<lambda>m. filter (\<lambda>c. c \<notin> set ordered_columns) (map fst m)) msgs))"
  by (simp add: extra_columns_def DataFrame_columns_def filter_first_seen filter_concat comp_def)

lemma batch_extra_columns:
  assumes "process_file lines = Inr msgs"
  shows "extra_columns msgs =
     (if msgs = [] then [] else [''Unknown Tags'']) @
     map unknown_column
       (first_seen (concat (map (\<lambda>line. unknown_codes (message_body line))
                              (filter (\<lambda>line. strip line \<noteq> []) lines))))"
proof -
  define ls where "ls = filter (\<lambda>line. strip line \<noteq> []) lines"
  define g where "g = (\<lambda>line. unknown_codes (message_body line))"
  have e: "msgs = [] \<longleftrightarrow> ls = []"
    using batch_length [OF assms] unfolding ls_def by (metis length_0_conv)
  have "extra_columns msgs =
          first_seen (concat (map (\<lambda>line. first_seen (''Unknown Tags'' # map unknown_column (g line))) ls))"
    unfolding extra_columns_alt batch_extra_keys [OF assms] ls_def g_def ..
  also have "\<dots> = first_seen (concat (map first_seen
                        (map (\<lambda>line. ''Unknown Tags'' # map unknown_column (g line)) ls)))"
    by (simp add: comp_def)
  also have "\<dots> = first_seen (concat (map (\<lambda>line. ''Unknown Tags'' # map unknown_column (g line)) ls))"
    unfolding first_seen_def [of "concat (map first_seen _)"] fold_ins_concat_first_seen
    by (simp add: first_seen_def)
  also have "\<dots> = (if ls = [] then [] else [''Unknown Tags'']) @
                    map unknown_column (first_seen (concat (map g ls)))"
    by (rule first_seen_headed [OF inj_unknown Unknown_Tags_not_unknown])
  finally show ?thesis using e by (simp add: ls_def g_def)
qed

lemma distinct_final_columns_order: "distinct (final_columns_order msgs)"
  by (auto simp: final_columns_order_def extra_columns_def DataFrame_columns_def
      distinct_ordered_columns distinct_first_seen)

text \<open>
  Claim C5 as first stated fails on the code: every record starts with the key
  \<open>Unknown Tags\<close>, which is not among the ordered columns, so the table of a batch that is not
  empty has the column \<open>Unknown Tags\<close> besides those the claim lists.
\<close>

theorem column_order_counterexample:
  "process_file [''Session(TID=XYZ123) | NewOrder]: 35=D|9999=x''] =
     Inr [[(''Unknown Tags'', Dct []), (''TID'', Str ''Session(TID=XYZ123)''),
           (''Order Type'', Str ''NewOrder''), (''35 MsgType'', Str ''D''),
           (''Unknown Tag 9999'', Str ''x'')]] \<and>
   extra_columns [[(''Unknown Tags'', Dct []), (''TID'', Str ''Session(TID=XYZ123)''),
           (''Order Type'', Str ''NewOrder''), (''35 MsgType'', Str ''D''),
           (''Unknown Tag 9999'', Str ''x'')]] = [''Unknown Tags'', ''Unknown Tag 9999''] \<and>
   ''Unknown Tags'' \<in> set (final_columns_order
        [[(''Unknown Tags'', Dct []), (''TID'', Str ''Session(TID=XYZ123)''),
           (''Order Type'', Str ''NewOrder''), (''35 MsgType'', Str ''D''),
           (''Unknown Tag 9999'', Str ''x'')]])"
  by (simp add: eval_defs final_columns_order_def extra_columns_def DataFrame_columns_def
      first_seen_def ins_def ordered_columns_eq)

text \<open>
  Claim C5, as amended. For the records of a batch of lines, the column sequence of the table
  is: \<open>TID\<close>, \<open>Order Type\<close>, every display name of the schema in the order of
  \<open>columns_mapping\<close>, then, if the batch has a record, the column \<open>Unknown Tags\<close>, then one
  column \<open>Unknown Tag <code>\<close> per tag code that the schema does not know, in the order in which
  these codes first occur in the bodies of the batch. No column occurs twice.
\<close>

theorem column_order:
  assumes "process_file lines = Inr msgs"
  shows "final_columns_order msgs =
           [''TID'', ''Order Type''] @
           map snd (filter (\<lambda>(tag, name). tag \<noteq> ''TID'' \<and> tag \<noteq> ''Order Type'') columns_mapping) @
           (if msgs = [] then [] else [''Unknown Tags'']) @
           map unknown_column
             (first_seen (concat (map (\<lambda>line. unknown_codes (message_body line))
                                    (filter (\<lambda>line. strip line \<noteq> []) lines)))) \<and>
         distinct (final_columns_order msgs)"
proof -
  have "ordered_columns =
          [''TID'', ''Order Type''] @
          map snd (filter (\<lambda>(tag, name). tag \<noteq> ''TID'' \<and> tag \<noteq> ''Order Type'') columns_mapping)"
    by (simp add: ordered_columns_eq columns_mapping_def)
  then show ?thesis
    using batch_extra_columns [OF assms] distinct_final_columns_order [of msgs]
    by (simp add: final_columns_order_def)
qed

text \<open>The amended claim C5 at a batch of three lines and a blank one; the codes \<open>78\<close> and \<open>77\<close>
  of the last line were met before, in the other order, and \<open>35\<close> is known.\<close>

theorem column_order_witness:
  "\<exists>msgs. process_file [''Session(TID=1) | New]: 35=D|77=a|78=b'', ''  '',
                         ''Session(TID=2) | New]: 78=c|79=d|77=e''] = Inr msgs \<and>
     final_columns_order msgs =
       [''TID'', ''Order Type'', ''8 BeginString'', ''9 BodyLength'', ''35 MsgType'',
        ''34 MsgSeqNum'', ''49 SenderCompID'', ''56 TargetCompID'', ''57 TargetSubID'',
        ''52 SendingTime'', ''11 ClOrdID'', ''17 ExecID'', ''37 OrderID'',
        ''198 SecondaryOrderId'', ''150 ExecType'', ''453 NoPartyIDs'', ''448 PartyID'',
        ''447 PartyIDSource'', ''452 PartyRole'', ''55 Symbol'', ''48 SecurityID'',
        ''22 SecurityIDSource'', ''762 SecuritySubType'', ''1 Account'', ''14 CumQty'',
        ''31 LastPx'', ''32 LastQty'', ''38 OrderQty'', ''110 MinQty'', ''39 OrdStatus'',
        ''40 OrdType'', ''44 Price'', ''847 TargetStrategy'', ''54 Side'', ''59 TimeInForce'',
        ''60 TransactTime'', ''75 TradeDate'', ''64 SettlDate'', ''151 LeavesQty'',
        ''880 TrdMatchID'', ''1891 TrdMatchSubID'', ''1057 AggressorIndicator'',
        ''381 GrossTradeAmt'', ''797 CopyMsgIndicator'', ''10 CheckSum'',
        ''Unknown Tags'', ''Unknown Tag 77'', ''Unknown Tag 78'', ''Unknown Tag 79''] \<and>
     distinct (final_columns_order msgs)"
proof -
  obtain msgs where p: "process_file [''Session(TID=1) | New]: 35=D|77=a|78=b'', ''  '',
                         ''Session(TID=2) | New]: 78=c|79=d|77=e''] = Inr msgs"
    and n: "msgs \<noteq> []"
    by (simp add: eval_defs)
  have u: "unknown_codes (message_body ''Session(TID=1) | New]: 35=D|77=a|78=b'') = [''77'', ''78'']"
    "unknown_codes (message_body ''Session(TID=2) | New]: 78=c|79=d|77=e'') = [''78'', ''79'', ''77'']"
    by (simp_all add: unknown_codes_def message_body_def eval_defs)
  have b: "strip ''  '' = []" "strip ''Session(TID=1) | New]: 35=D|77=a|78=b'' \<noteq> []"
    "strip ''Session(TID=2) | New]: 78=c|79=d|77=e'' \<noteq> []"
    by (simp_all add: strip_def isspace_def)
  have "final_columns_order msgs =
       [''TID'', ''Order Type'', ''8 BeginString'', ''9 BodyLength'', ''35 MsgType'',
        ''34 MsgSeqNum'', ''49 SenderCompID'', ''56 TargetCompID'', ''57 TargetSubID'',
        ''52 SendingTime'', ''11 ClOrdID'', ''17 ExecID'', ''37 OrderID'',
        ''198 SecondaryOrderId'', ''150 ExecType'', ''453 NoPartyIDs'', ''448 PartyID'',
        ''447 PartyIDSource'', ''452 PartyRole'', ''55 Symbol'', ''48 SecurityID'',
        ''22 SecurityIDSource'', ''762 SecuritySubType'', ''1 Account'', ''14 CumQty'',
        ''31 LastPx'', ''32 LastQty'', ''38 OrderQty'', ''110 MinQty'', ''39 OrdStatus'',
        ''40 OrdType'', ''44 Price'', ''847 TargetStrategy'', ''54 Side'', ''59 TimeInForce'',
        ''60 TransactTime'', ''75 TradeDate'', ''64 SettlDate'', ''151 LeavesQty'',
        ''880 TrdMatchID'', ''1891 TrdMatchSubID'', ''1057 AggressorIndicator'',
        ''381 GrossTradeAmt'', ''797 CopyMsgIndicator'', ''10 CheckSum'',
        ''Unknown Tags'', ''Unknown Tag 77'', ''Unknown Tag 78'', ''Unknown Tag 79''] \<and>
     distinct (final_columns_order msgs)"
    using column_order [OF p] n
    by (simp add: u b first_seen_def ins_def unknown_column_def columns_mapping_def)
  then show ?thesis using p by blast
qed

lemma final_columns_headed:
  assumes "process_file lines = Inr msgs" and "msgs \<noteq> []"
  shows "\<exists>codes. final_columns_order msgs =
           ordered_columns @ ''Unknown Tags'' # map unknown_column codes"
proof -
  have "extra_columns msgs = ''Unknown Tags'' #
          map unknown_column
            (first_seen (concat (map (\<lambda>line. unknown_codes (message_body line))
                                   (filter (\<lambda>line. strip line \<noteq> []) lines))))"
    using batch_extra_columns [OF assms(1)] assms(2) by simp
  then have "final_columns_order msgs = ordered_columns @ ''Unknown Tags'' #
          map unknown_column
            (first_seen (concat (map (\<lambda>line. unknown_codes (message_body line))
                                   (filter (\<lambda>line. strip line \<noteq> []) lines))))"
    by (simp add: final_columns_order_def)
  then show ?thesis by (rule exI)
qed

text \<open>
  Claim C9. Every record that \<open>parse_message\<close> returns has the key \<open>Unknown Tags\<close> with the
  empty dictionary as its value. So the table of a batch with at least one record has, right
  after the ordered columns, a column \<open>Unknown Tags\<close>, followed only by the columns
  \<open>Unknown Tag <code>\<close>, none of which is among the ordered columns; and in every row the cell
  of that column is the empty dictionary, not a string.
\<close>

theorem Unknown_Tags_column:
  "(parse_message line = Inr m \<longrightarrow> map_of m ''Unknown Tags'' = Some (Dct [])) \<and>
   (process_file lines = Inr msgs \<and> msgs \<noteq> [] \<longrightarrow>
      (\<exists>codes. final_columns_order msgs =
                 ordered_columns @ ''Unknown Tags'' # map unknown_column codes) \<and>
      (\<forall>c \<in> set ordered_columns. c \<noteq> ''Unknown Tags'' \<and> \<not> prefix ''Unknown Tag '' c) \<and>
      (\<forall>row \<in> set (snd (save_to_excel msgs)). row ! length ordered_columns = Some (Dct [])))"
proof (intro conjI impI)
  assume "parse_message line = Inr m"
  then show "map_of m ''Unknown Tags'' = Some (Dct [])" by (rule decoded_Unknown_Tags)
next
  assume a: "process_file lines = Inr msgs \<and> msgs \<noteq> []"
  then show "\<exists>codes. final_columns_order msgs =
                 ordered_columns @ ''Unknown Tags'' # map unknown_column codes"
    using final_columns_headed by blast
next
  assume a: "process_file lines = Inr msgs \<and> msgs \<noteq> []"
  show "\<forall>c \<in> set ordered_columns. c \<noteq> ''Unknown Tags'' \<and> \<not> prefix ''Unknown Tag '' c"
    using ordered_not_unknown Unknown_Tags_not_ordered by blast
next
  assume a: "process_file lines = Inr msgs \<and> msgs \<noteq> []"
  then obtain codes where f: "final_columns_order msgs =
                 ordered_columns @ ''Unknown Tags'' # map unknown_column codes"
    using final_columns_headed by blast
  have "map (map_of m') (final_columns_order msgs) ! length ordered_columns = Some (Dct [])"
    if "m' \<in> set msgs" for m'
  proof -
    have "map_of m' ''Unknown Tags'' = Some (Dct [])"
      using batch_Unknown_Tags a that by blast
    then show ?thesis unfolding f by (simp add: nth_append)
  qed
  then show "\<forall>row \<in> set (snd (save_to_excel msgs)). row ! length ordered_columns = Some (Dct [])"
    by (auto simp: save_to_excel_def)
qed

text \<open>Claim C9 at a batch of one line with an unknown tag.\<close>

theorem Unknown_Tags_column_witness:
  "map_of [(''Unknown Tags'', Dct []), (''TID'', Str ''Session(TID=XYZ123)''),
           (''Order Type'', Str ''NewOrder''), (''35 MsgType'', Str ''D''),
           (''Unknown Tag 9999'', Str ''x'')] ''Unknown Tags'' = Some (Dct []) \<and>
   (\<exists>codes. final_columns_order
        [[(''Unknown Tags'', Dct []), (''TID'', Str ''Session(TID=XYZ123)''),
          (''Order Type'', Str ''NewOrder''), (''35 MsgType'', Str ''D''),
          (''Unknown Tag 9999'', Str ''x'')]] =
        ordered_columns @ ''Unknown Tags'' # map unknown_column codes) \<and>
   map (\<lambda>row. row ! length ordered_columns) (snd (save_to_excel
        [[(''Unknown Tags'', Dct []), (''TID'', Str ''Session(TID=XYZ123)''),
          (''Order Type'', Str ''NewOrder''), (''35 MsgType'', Str ''D''),
          (''Unknown Tag 9999'', Str ''x'')]])) = [Some (Dct [])]"
proof -
  define m where "m = [(''Unknown Tags'', Dct []), (''TID'', Str ''Session(TID=XYZ123)''),
           (''Order Type'', Str ''NewOrder''), (''35 MsgType'', Str ''D''),
           (''Unknown Tag 9999'', Str ''x'')]"
  have 1: "parse_message ''Session(TID=XYZ123) | NewOrder]: 35=D|9999=x'' = Inr m"
    by (simp add: m_def eval_defs)
  then have 2: "process_file [''Session(TID=XYZ123) | NewOrder]: 35=D|9999=x''] = Inr [m] \<and> [m] \<noteq> []"
    by (simp add: strip_def isspace_def)
  have 3: "snd (save_to_excel [m]) = [map (map_of m) (final_columns_order [m])]"
    by (simp add: save_to_excel_def)
  have "map_of m ''Unknown Tags'' = Some (Dct []) \<and>
    (\<exists>codes. final_columns_order [m] =
        ordered_columns @ ''Unknown Tags'' # map unknown_column codes) \<and>
    map (\<lambda>row. row ! length ordered_columns) (snd (save_to_excel [m])) = [Some (Dct [])]"
    using Unknown_Tags_column [of "''Session(TID=XYZ123) | NewOrder]: 35=D|9999=x''" m
        "[''Session(TID=XYZ123) | NewOrder]: 35=D|9999=x'']" "[m]"] 1 2
    unfolding 3 by simp
  then show ?thesis unfolding m_def .
qed

end
